theory Spec2Isabelle
  imports Complex_Main "HOL-Library.Multiset"
begin

section \<open>Numbers of the host language\<close>

text \<open>
  The program computes with the numbers of JavaScript. A number is modelled as a finite
  value, one of the two infinities, or NaN. Finite values are exact rationals: rounding,
  overflow on large magnitudes and the sign of zero are not tracked. The operations follow
  the host's rules for infinities and NaN.
\<close>

datatype jsnum = Fin rat | PInf | NInf | NaN

fun js_neg :: "jsnum \<Rightarrow> jsnum" where
  "js_neg (Fin a) = Fin (- a)"
| "js_neg PInf = NInf"
| "js_neg NInf = PInf"
| "js_neg NaN = NaN"

fun js_add :: "jsnum \<Rightarrow> jsnum \<Rightarrow> jsnum" where
  "js_add NaN _ = NaN"
| "js_add _ NaN = NaN"
| "js_add (Fin a) (Fin b) = Fin (a + b)"
| "js_add PInf NInf = NaN"
| "js_add NInf PInf = NaN"
| "js_add PInf _ = PInf"
| "js_add _ PInf = PInf"
| "js_add NInf _ = NInf"
| "js_add _ NInf = NInf"

definition js_sub :: "jsnum \<Rightarrow> jsnum \<Rightarrow> jsnum" where
  "js_sub a b = js_add a (js_neg b)"

fun js_mul :: "jsnum \<Rightarrow> jsnum \<Rightarrow> jsnum" where
  "js_mul NaN _ = NaN"
| "js_mul _ NaN = NaN"
| "js_mul (Fin a) (Fin b) = Fin (a * b)"
| "js_mul PInf (Fin b) = (if b = 0 then NaN else if 0 < b then PInf else NInf)"
| "js_mul NInf (Fin b) = (if b = 0 then NaN else if 0 < b then NInf else PInf)"
| "js_mul (Fin a) PInf = (if a = 0 then NaN else if 0 < a then PInf else NInf)"
| "js_mul (Fin a) NInf = (if a = 0 then NaN else if 0 < a then NInf else PInf)"
| "js_mul PInf PInf = PInf"
| "js_mul NInf NInf = PInf"
| "js_mul PInf NInf = NInf"
| "js_mul NInf PInf = NInf"

fun js_div :: "jsnum \<Rightarrow> jsnum \<Rightarrow> jsnum" where
  "js_div NaN _ = NaN"
| "js_div _ NaN = NaN"
| "js_div (Fin a) (Fin b) =
     (if b \<noteq> 0 then Fin (a / b)
      else if a = 0 then NaN else if 0 < a then PInf else NInf)"
| "js_div (Fin a) PInf = Fin 0"
| "js_div (Fin a) NInf = Fin 0"
| "js_div PInf (Fin b) = (if 0 \<le> b then PInf else NInf)"
| "js_div NInf (Fin b) = (if 0 \<le> b then NInf else PInf)"
| "js_div PInf PInf = NaN"
| "js_div PInf NInf = NaN"
| "js_div NInf PInf = NaN"
| "js_div NInf NInf = NaN"

text \<open>Truthiness of a number, as \<open>x || d\<close> tests it: zero and NaN are falsy.\<close>

fun truthy :: "jsnum \<Rightarrow> bool" where
  "truthy (Fin a) = (a \<noteq> 0)"
| "truthy NaN = False"
| "truthy _ = True"

definition num_or :: "jsnum \<Rightarrow> jsnum \<Rightarrow> jsnum" where
  "num_or x d = (if truthy x then x else d)"

text \<open>\<open>s || d\<close> on a string that may be absent: absent and empty are falsy.\<close>

definition string_or :: "string option \<Rightarrow> string \<Rightarrow> string" where
  "string_or s d = (case s of None \<Rightarrow> d | Some x \<Rightarrow> if x = [] then d else x)"

text \<open>\<open>xs || []\<close> on an array that may be absent: every array is truthy.\<close>

definition list_or :: "'a list option \<Rightarrow> 'a list \<Rightarrow> 'a list" where
  "list_or xs d = (case xs of None \<Rightarrow> d | Some x \<Rightarrow> x)"

section \<open>Data model\<close>

text \<open>
  Modelled from the spec: the declarations of \<open>Parameter\<close>, \<open>Module\<close>, \<open>Element\<close>,
  \<open>ElementWithValues\<close> and \<open>Template\<close> (zod-schema.ts and types.ts) are not among the
  sources. The records carry the fields that the handlers read and write and that sections
  3 and 6 of the specification list. Identifiers are natural numbers. A property that the
  code guards with \<open>||\<close> may be absent and is an option. The value of a parameter is a
  text or a number; \<open>VNull\<close> stands for a value that is \<open>null\<close> or \<open>undefined\<close> at run
  time, which the declared type excludes and the \<open>try\<close> block of \<open>evaluateFormula\<close>
  covers.
\<close>

datatype pvalue = VStr string | VNum jsnum | VNull

record parameter =
  p_id :: nat
  p_name :: string
  p_value :: pvalue
  p_type :: string

record module_rec =
  m_id :: nat
  m_name :: string
  m_description :: "string option"

record element_def =
  e_id :: nat
  e_name :: string
  e_description :: "string option"
  e_formula :: "string option"
  e_labor_formula :: "string option"

text \<open>
  A priced element (\<open>ElementWithValues\<close>). The field \<open>v_name\<close> is the property
  \<open>name\<close> that \<open>calculateElementCosts\<close> adds; it is absent before.
\<close>

record priced =
  v_id :: nat
  v_element :: element_def
  v_module :: module_rec
  v_formula :: string
  v_labor_formula :: string
  v_material_cost :: jsnum
  v_labor_cost :: jsnum
  v_markup :: jsnum
  v_name :: "string option"

record template_element =
  t_element :: element_def
  t_module :: module_rec
  t_markup :: "jsnum option"

record template =
  tp_id :: nat
  tp_modules :: "module_rec list option"
  tp_parameters :: "parameter list option"
  tp_template_elements :: "template_element list option"

section \<open>Cost aggregation (trades-tab.tsx)\<close>

text \<open>
  \<open>calculateTotalCost\<close>: a left fold from 0 over the selected elements. The two first
  arguments are the component's \<open>useGlobalMarkup\<close> and \<open>globalMarkup\<close>. The costs of the
  model are numbers, so the \<open>typeof\<close> tests of the source always succeed.
\<close>

definition subtotal :: "bool \<Rightarrow> jsnum \<Rightarrow> priced \<Rightarrow> jsnum" where
  "subtotal useGlobalMarkup globalMarkup element =
     (let materialCost = v_material_cost element;
          laborCost = v_labor_cost element;
          markup = (if useGlobalMarkup then globalMarkup else num_or (v_markup element) (Fin 10))
      in js_mul (js_add materialCost laborCost) (js_add (Fin 1) (js_div markup (Fin 100))))"

definition calculateTotalCost :: "bool \<Rightarrow> jsnum \<Rightarrow> priced list \<Rightarrow> jsnum" where
  "calculateTotalCost useGlobalMarkup globalMarkup selectedElements =
     foldl (\<lambda>total element. js_add total (subtotal useGlobalMarkup globalMarkup element))
       (Fin 0) selectedElements"

text \<open>The aggregation as the specification words it (section 4.2).\<close>

definition effectiveMarkup :: "bool \<Rightarrow> jsnum \<Rightarrow> priced \<Rightarrow> jsnum" where
  "effectiveMarkup enabled globalPercentage e =
     (if enabled then globalPercentage else v_markup e)"

definition elementTotal :: "bool \<Rightarrow> jsnum \<Rightarrow> priced \<Rightarrow> jsnum" where
  "elementTotal enabled globalPercentage e =
     js_mul (js_add (v_material_cost e) (v_labor_cost e))
       (js_add (Fin 1) (js_div (effectiveMarkup enabled globalPercentage e) (Fin 100)))"

definition grandTotal :: "bool \<Rightarrow> jsnum \<Rightarrow> priced list \<Rightarrow> jsnum" where
  "grandTotal enabled globalPercentage es =
     foldl js_add (Fin 0) (map (elementTotal enabled globalPercentage) es)"

section \<open>Formula evaluation (lib/formula-evaluator.ts)\<close>

subsection \<open>Word characters and the runs of a text\<close>

text \<open>
  The two regular expressions of \<open>evaluateFormula\<close> are built from the word boundary and
  the class of word characters (letters, digits, underscore). A text is cut into its
  maximal runs of word characters and its single other characters. A word boundary lies
  exactly at the two ends of every run.
\<close>

definition is_digit :: "char \<Rightarrow> bool" where
  "is_digit c = (c \<in> set ''0123456789'')"

definition is_ident_start :: "char \<Rightarrow> bool" where
  "is_ident_start c =
     (c \<in> set ''abcdefghijklmnopqrstuvwxyzABCDEFGHIJKLMNOPQRSTUVWXYZ_'')"

definition is_word :: "char \<Rightarrow> bool" where
  "is_word c = (is_ident_start c \<or> is_digit c)"

datatype chunk = Word string | Sep char

fun chunks :: "string \<Rightarrow> chunk list" where
  "chunks [] = []"
| "chunks (c # cs) =
     (if is_word c
      then (case chunks cs of Word w # r \<Rightarrow> Word (c # w) # r | r \<Rightarrow> Word [c] # r)
      else Sep c # chunks cs)"

fun chunk_text :: "chunk \<Rightarrow> string" where
  "chunk_text (Word w) = w"
| "chunk_text (Sep c) = [c]"

definition word_name :: "string \<Rightarrow> bool" where
  "word_name n = (n \<noteq> [] \<and> list_all is_word n)"

text \<open>
  The replacement of one parameter: the source builds a global pattern from the name
  between two word boundaries and replaces its matches by the value's text. For a name
  that is a non-empty string of word characters the pattern has no metacharacter and
  matches exactly the runs equal to the name. A replacement text without the dollar sign
  is inserted as it is. Other names and replacement texts are outside the model: the
  result is \<open>None\<close>.
\<close>

definition replace_word :: "string \<Rightarrow> string \<Rightarrow> string \<Rightarrow> string option" where
  "replace_word name replacement text =
     (if word_name name \<and> CHR ''$'' \<notin> set replacement
      then Some (concat (map (\<lambda>ch. if ch = Word name then replacement else chunk_text ch)
                          (chunks text)))
      else None)"

subsection \<open>The text of a parameter value\<close>

definition digit_char :: "nat \<Rightarrow> char" where
  "digit_char n = ''0123456789'' ! (n mod 10)"

fun nat_digits :: "nat \<Rightarrow> string" where
  "nat_digits n =
     (if n < 10 then [digit_char n] else nat_digits (n div 10) @ [digit_char n])"

declare nat_digits.simps [simp del]

text \<open>
  The host's \<open>toString\<close> of a number: the names of the three special values, and the
  decimal numeral of an integer of magnitude at most \<open>2^53\<close>; every such integer is a
  number of the host and prints as its numeral. The digits that the host prints for other
  numbers are outside the model.
\<close>

definition number_toString :: "jsnum \<Rightarrow> string option" where
  "number_toString x =
     (case x of
        NaN \<Rightarrow> Some ''NaN''
      | PInf \<Rightarrow> Some ''Infinity''
      | NInf \<Rightarrow> Some ''-Infinity''
      | Fin q \<Rightarrow>
          (if of_int \<lfloor>q\<rfloor> = q \<and> \<bar>q\<bar> \<le> 2 ^ 53
           then Some ((if q < 0 then ''-'' else []) @ nat_digits (nat \<bar>\<lfloor>q\<rfloor>\<bar>))
           else None))"

definition value_toString :: "pvalue \<Rightarrow> string option" where
  "value_toString v =
     (case v of VStr s \<Rightarrow> Some s | VNum x \<Rightarrow> number_toString x | VNull \<Rightarrow> None)"

subsection \<open>evaluateFormula\<close>

text \<open>The \<open>forEach\<close> over the parameters, one replacement after the other.\<close>

fun substitute :: "parameter list \<Rightarrow> string \<Rightarrow> string option" where
  "substitute [] evaluableFormula = Some evaluableFormula"
| "substitute (param # rest) evaluableFormula =
     (case value_toString (p_value param) of
        None \<Rightarrow> None
      | Some v \<Rightarrow>
          (case replace_word (p_name param) v evaluableFormula of
             None \<Rightarrow> None
           | Some t \<Rightarrow> substitute rest t))"

text \<open>
  The safety check matches a word boundary, a letter or underscore, word characters and
  a word boundary: the matches are the runs that start with a letter or an underscore.
  The empty list stands for \<open>null\<close>.
\<close>

fun is_identifier :: "chunk \<Rightarrow> bool" where
  "is_identifier (Word w) = (case w of [] \<Rightarrow> False | c # _ \<Rightarrow> is_ident_start c)"
| "is_identifier (Sep _) = False"

definition remainingParamMatch :: "string \<Rightarrow> string list" where
  "remainingParamMatch text = map chunk_text (filter is_identifier (chunks text))"

text \<open>
  The call of the function that the host constructs from the body text either returns a
  value or throws. Of the values, the model has the numbers and \<open>undefined\<close>.
\<close>

datatype jsval = Num jsnum | Undefined

datatype completion = Return jsval | Throw

fun to_number :: "jsval \<Rightarrow> jsnum" where
  "to_number (Num x) = x"
| "to_number Undefined = NaN"

definition isNaN :: "jsval \<Rightarrow> bool" where
  "isNaN v = (to_number v = NaN)"

text \<open>
  \<open>evaluateFormula\<close>. The first argument is the host's evaluation of a function body,
  \<open>None\<close> where it has no completion (the body does not terminate, or it is outside the
  model of the host below). The formula is \<open>None\<close> for \<open>null\<close> and \<open>undefined\<close>. A
  throw inside the \<open>try\<close> block is caught and gives 0. The result is \<open>None\<close> where the
  model does not determine it.
\<close>

definition evaluateFormula ::
  "(string \<Rightarrow> completion option) \<Rightarrow> string option \<Rightarrow> parameter list \<Rightarrow> jsnum option" where
  "evaluateFormula run formula parameters =
     (case formula of
        None \<Rightarrow> Some (Fin 0)
      | Some f \<Rightarrow>
          if f = [] then Some (Fin 0)
          else (case substitute parameters f of
                  None \<Rightarrow> None
                | Some evaluableFormula \<Rightarrow>
                    if remainingParamMatch evaluableFormula \<noteq> [] then Some (Fin 0)
                    else (case run (''return '' @ evaluableFormula) of
                            None \<Rightarrow> None
                          | Some Throw \<Rightarrow> Some (Fin 0)
                          | Some (Return result) \<Rightarrow>
                              Some (if isNaN result then Fin 0 else to_number result))))"

text \<open>
  The evaluator as the page's handlers call it: a function from a formula and the
  parameters to a number. Where the model does not determine the number, 0 stands in; the
  examples below stay inside the model.
\<close>

definition evaluate_with ::
  "(string \<Rightarrow> completion option) \<Rightarrow> string \<Rightarrow> parameter list \<Rightarrow> jsnum" where
  "evaluate_with run formula parameters =
     (case evaluateFormula run (Some formula) parameters of Some x \<Rightarrow> x | None \<Rightarrow> Fin 0)"

section \<open>The host on arithmetic text\<close>

text \<open>
  Modelled from the spec: the host's evaluation of the body \<open>return\<close> followed by an
  arithmetic text (section 4.1: numeric literals and the operators \<open>+ - * / ( )\<close>). The
  host is no code of the repository. The model follows the grammar of the host language on
  the texts it covers: decimal literals with an optional fraction and without a leading
  zero before further digits, the four binary operators with their precedence and left
  associativity, prefix plus and minus, parentheses, spaces and tabs. It answers \<open>None\<close>
  for every other text: names, other characters, line breaks, comments, the exponent
  operator, and a slash where an operand is expected (a regular expression literal).
\<close>

datatype token =
  TNum rat | TId string | TPlus | TMinus | TStar | TSlash | TLParen | TRParen | TIncr | TDecr

definition digit_val :: "char \<Rightarrow> nat" where
  "digit_val c = length (takeWhile (\<lambda>d. d \<noteq> c) ''0123456789'')"

definition decimal :: "string \<Rightarrow> nat" where
  "decimal ds = foldl (\<lambda>n c. 10 * n + digit_val c) 0 ds"

definition int_literal :: "string \<Rightarrow> bool" where
  "int_literal w =
     (case w of
        [] \<Rightarrow> False
      | c # r \<Rightarrow> list_all is_digit w \<and> (if c = CHR ''0'' then r = [] else True))"

definition frac_value :: "string \<Rightarrow> rat" where
  "frac_value f = of_nat (decimal f) / 10 ^ length f"

text \<open>
  The tokens of a text, from its runs. Two adjacent plus or minus signs are one token, the
  increment or decrement operator, as the host's longest-match rule has it.
\<close>

fun lex :: "chunk list \<Rightarrow> token list option" where
  "lex [] = Some []"
| "lex (Word w # r) =
     (if is_identifier (Word w) then map_option ((#) (TId w)) (lex r)
      else if \<not> int_literal w then None
      else (case r of
              Sep d # Word f # r' \<Rightarrow>
                (if d = CHR ''.''
                 then (if list_all is_digit f
                       then map_option ((#) (TNum (of_nat (decimal w) + frac_value f))) (lex r')
                       else None)
                 else map_option ((#) (TNum (of_nat (decimal w)))) (lex r))
            | Sep d # r' \<Rightarrow>
                (if d = CHR ''.''
                 then map_option ((#) (TNum (of_nat (decimal w)))) (lex r')
                 else map_option ((#) (TNum (of_nat (decimal w)))) (lex r))
            | _ \<Rightarrow> map_option ((#) (TNum (of_nat (decimal w)))) (lex r)))"
| "lex (Sep c # r) =
     (if c = CHR '' '' \<or> c = CHR 0x09 then lex r
      else if c = CHR ''+'' then
        (case r of Sep d # r' \<Rightarrow>
             (if d = CHR ''+'' then map_option ((#) TIncr) (lex r')
              else map_option ((#) TPlus) (lex r))
         | _ \<Rightarrow> map_option ((#) TPlus) (lex r))
      else if c = CHR ''-'' then
        (case r of Sep d # r' \<Rightarrow>
             (if d = CHR ''-'' then map_option ((#) TDecr) (lex r')
              else map_option ((#) TMinus) (lex r))
         | _ \<Rightarrow> map_option ((#) TMinus) (lex r))
      else if c = CHR ''*'' then
        (case r of Sep d # r' \<Rightarrow>
             (if d = CHR ''*'' then None else map_option ((#) TStar) (lex r))
         | _ \<Rightarrow> map_option ((#) TStar) (lex r))
      else if c = CHR ''/'' then
        (case r of Sep d # r' \<Rightarrow>
             (if d = CHR ''/'' \<or> d = CHR ''*'' then None else map_option ((#) TSlash) (lex r))
         | _ \<Rightarrow> map_option ((#) TSlash) (lex r))
      else if c = CHR ''('' then map_option ((#) TLParen) (lex r)
      else if c = CHR '')'' then map_option ((#) TRParen) (lex r)
      else if c = CHR ''.'' then
        (case r of Word f # r' \<Rightarrow>
             (if list_all is_digit f then map_option ((#) (TNum (frac_value f))) (lex r')
              else None)
         | _ \<Rightarrow> None)
      else None)"

text \<open>
  The value of a token list, by operator precedence: a stack of pending operators and a
  stack of operand values. Arithmetic on numbers has no effect and never throws, so the
  operations are applied as soon as the precedence allows.
\<close>

datatype oper = OAdd | OSub | OMul | ODiv | OPos | ONeg | OParen

fun prec :: "oper \<Rightarrow> nat" where
  "prec OParen = 0"
| "prec OAdd = 1"
| "prec OSub = 1"
| "prec OMul = 2"
| "prec ODiv = 2"
| "prec OPos = 3"
| "prec ONeg = 3"

fun apply_oper :: "oper \<Rightarrow> jsnum list \<Rightarrow> jsnum list option" where
  "apply_oper OAdd (b # a # vs) = Some (js_add a b # vs)"
| "apply_oper OSub (b # a # vs) = Some (js_sub a b # vs)"
| "apply_oper OMul (b # a # vs) = Some (js_mul a b # vs)"
| "apply_oper ODiv (b # a # vs) = Some (js_div a b # vs)"
| "apply_oper OPos (a # vs) = Some (a # vs)"
| "apply_oper ONeg (a # vs) = Some (js_neg a # vs)"
| "apply_oper _ _ = None"

fun reduce :: "nat \<Rightarrow> oper list \<Rightarrow> jsnum list \<Rightarrow> (oper list \<times> jsnum list) option" where
  "reduce p [] vs = Some ([], vs)"
| "reduce p (o1 # os) vs =
     (if p \<le> prec o1
      then (case apply_oper o1 vs of None \<Rightarrow> None | Some vs' \<Rightarrow> reduce p os vs')
      else Some (o1 # os, vs))"

definition push_binary ::
  "nat \<Rightarrow> oper \<Rightarrow> oper list \<Rightarrow> jsnum list \<Rightarrow> (oper list \<times> jsnum list) option" where
  "push_binary p o1 os vs = map_option (\<lambda>(os', vs'). (o1 # os', vs')) (reduce p os vs)"

text \<open>
  The flag tells whether an operand is expected. A syntax error, and the call of a number
  (a parenthesis after an operand), throw. The increment and decrement operators have no
  assignable operand in such a text: a syntax error. The empty text returns
  \<open>undefined\<close>.
\<close>

fun shunt :: "token list \<Rightarrow> bool \<Rightarrow> oper list \<Rightarrow> jsnum list \<Rightarrow> completion option" where
  "shunt [] operand os vs =
     (if operand then (if os = [] \<and> vs = [] then Some (Return Undefined) else Some Throw)
      else (case reduce 1 os vs of
              None \<Rightarrow> None
            | Some (os', vs') \<Rightarrow>
                (case (os', vs') of ([], [v]) \<Rightarrow> Some (Return (Num v)) | _ \<Rightarrow> Some Throw)))"
| "shunt (TIncr # ts) operand os vs = Some Throw"
| "shunt (TDecr # ts) operand os vs = Some Throw"
| "shunt (TId x # ts) operand os vs = None"
| "shunt (TNum q # ts) operand os vs =
     (if operand then shunt ts False os (Fin q # vs) else Some Throw)"
| "shunt (TPlus # ts) operand os vs =
     (if operand then shunt ts True (OPos # os) vs
      else (case push_binary 1 OAdd os vs of
              None \<Rightarrow> None | Some (os', vs') \<Rightarrow> shunt ts True os' vs'))"
| "shunt (TMinus # ts) operand os vs =
     (if operand then shunt ts True (ONeg # os) vs
      else (case push_binary 1 OSub os vs of
              None \<Rightarrow> None | Some (os', vs') \<Rightarrow> shunt ts True os' vs'))"
| "shunt (TStar # ts) operand os vs =
     (if operand then Some Throw
      else (case push_binary 2 OMul os vs of
              None \<Rightarrow> None | Some (os', vs') \<Rightarrow> shunt ts True os' vs'))"
| "shunt (TSlash # ts) operand os vs =
     (if operand then None
      else (case push_binary 2 ODiv os vs of
              None \<Rightarrow> None | Some (os', vs') \<Rightarrow> shunt ts True os' vs'))"
| "shunt (TLParen # ts) operand os vs =
     (if operand then shunt ts True (OParen # os) vs else Some Throw)"
| "shunt (TRParen # ts) operand os vs =
     (if operand then Some Throw
      else (case reduce 1 os vs of
              None \<Rightarrow> None
            | Some (os', vs') \<Rightarrow>
                (case os' of OParen # os'' \<Rightarrow> shunt ts False os'' vs' | _ \<Rightarrow> Some Throw)))"

fun is_name_token :: "token \<Rightarrow> bool" where
  "is_name_token (TId _) = True"
| "is_name_token _ = False"

definition js_arith :: "string \<Rightarrow> completion option" where
  "js_arith text =
     (case lex (chunks text) of
        None \<Rightarrow> None
      | Some ts \<Rightarrow> if list_ex is_name_token ts then None else shunt ts True [] [])"

definition js_run :: "string \<Rightarrow> completion option" where
  "js_run body = (if take 7 body = ''return '' then js_arith (drop 7 body) else None)"

section \<open>evaluateFormula with every failure of the host\<close>

text \<open>
  \<open>evaluateFormula\<close> above answers \<open>None\<close> both where the host does not return and where
  the model does not reach, and it has no throw but the one of the constructed function.
  Here is the function once more, with every answer that a built-in of the host can give
  told apart: a value, a throw, or no return; \<open>Unmodelled\<close> is the answer where the model
  of the host below does not determine the real one. A host is given by the three
  built-ins whose behaviour the function does not fix: the construction of a pattern from
  a name that has other characters than word characters (it throws, or gives the
  replacement that the pattern performs on a text with a replacement text), the text of
  a number, and the call of the function constructed from a body. Where the function
  above gives a number, this one gives the same on the modelled host (lemma
  \<open>evaluateFormula_in_old\<close>).
\<close>

datatype 'a answer = Gives 'a | Throws | Hangs | Unmodelled

fun and_then :: "'a answer \<Rightarrow> ('a \<Rightarrow> 'b answer) \<Rightarrow> 'b answer" where
  "and_then (Gives x) f = f x"
| "and_then Throws f = Throws"
| "and_then Hangs f = Hangs"
| "and_then Unmodelled f = Unmodelled"

record host =
  h_regexp :: "string \<Rightarrow> (string \<Rightarrow> string \<Rightarrow> string answer) answer"
  h_number_text :: "jsnum \<Rightarrow> string answer"
  h_call :: "string \<Rightarrow> jsval answer"

text \<open>
  Line 20, \<open>new RegExp\<close>: for a name that is a non-empty string of word characters the
  pattern is the one of \<open>replace_word\<close>; the host decides for every other name.
\<close>

definition whole_token_replace :: "string \<Rightarrow> string \<Rightarrow> string \<Rightarrow> string answer" where
  "whole_token_replace name text replacement =
     (case replace_word name replacement text of Some t \<Rightarrow> Gives t | None \<Rightarrow> Unmodelled)"

definition regexp_of :: "host \<Rightarrow> string \<Rightarrow> (string \<Rightarrow> string \<Rightarrow> string answer) answer" where
  "regexp_of h name =
     (if word_name name then Gives (whole_token_replace name) else h_regexp h name)"

text \<open>Line 21, \<open>param.value.toString()\<close>: it throws on a value that is absent.\<close>

definition value_text :: "host \<Rightarrow> pvalue \<Rightarrow> string answer" where
  "value_text h v =
     (case v of VStr s \<Rightarrow> Gives s | VNum x \<Rightarrow> h_number_text h x | VNull \<Rightarrow> Throws)"

definition replace_step :: "host \<Rightarrow> string \<Rightarrow> parameter \<Rightarrow> string answer" where
  "replace_step h evaluableFormula param =
     and_then (regexp_of h (p_name param)) (\<lambda>paramRegex.
     and_then (value_text h (p_value param)) (\<lambda>v. paramRegex evaluableFormula v))"

fun substitute_in :: "host \<Rightarrow> parameter list \<Rightarrow> string \<Rightarrow> string answer" where
  "substitute_in h [] evaluableFormula = Gives evaluableFormula"
| "substitute_in h (param # rest) evaluableFormula =
     and_then (replace_step h evaluableFormula param) (substitute_in h rest)"

text \<open>Lines 13 to 37, the body of the \<open>try\<close> block.\<close>

definition try_block :: "host \<Rightarrow> string \<Rightarrow> parameter list \<Rightarrow> jsnum answer" where
  "try_block h formula parameters =
     and_then (substitute_in h parameters formula) (\<lambda>evaluableFormula.
       if remainingParamMatch evaluableFormula \<noteq> [] then Gives (Fin 0)
       else and_then (h_call h (''return '' @ evaluableFormula)) (\<lambda>result.
              Gives (if isNaN result then Fin 0 else to_number result)))"

text \<open>Lines 10 and 38 to 41: the test of the formula, and the \<open>catch\<close> of every throw.\<close>

definition evaluateFormula_in :: "host \<Rightarrow> string option \<Rightarrow> parameter list \<Rightarrow> jsnum answer" where
  "evaluateFormula_in h formula parameters =
     (case formula of
        None \<Rightarrow> Gives (Fin 0)
      | Some f \<Rightarrow>
          if f = [] then Gives (Fin 0)
          else (case try_block h f parameters of Throws \<Rightarrow> Gives (Fin 0) | r \<Rightarrow> r))"

subsection \<open>The modelled host\<close>

text \<open>
  Modelled from the spec: the built-ins of the host are no code of the repository. A name
  made of word characters and opening parentheses, with at least one parenthesis, gives a
  pattern with a group that is never closed: the construction throws. The text of a
  number is \<open>number_toString\<close>. The call is \<open>js_run\<close> on arithmetic text.
\<close>

definition bad_pattern :: "string \<Rightarrow> bool" where
  "bad_pattern name =
     (CHR ''('' \<in> set name \<and> list_all (\<lambda>c. is_word c \<or> c = CHR ''('') name)"

definition js_regexp :: "string \<Rightarrow> (string \<Rightarrow> string \<Rightarrow> string answer) answer" where
  "js_regexp name = (if bad_pattern name then Throws else Unmodelled)"

definition js_number_text :: "jsnum \<Rightarrow> string answer" where
  "js_number_text x = (case number_toString x of Some s \<Rightarrow> Gives s | None \<Rightarrow> Unmodelled)"

text \<open>
  Modelled from the spec: section 9 notes that the source constructs code from a string
  and runs it, whatever the text; the host is no code of the repository. A text passes
  the safety check when it has no run that starts with a letter or an underscore, and the
  host's language needs none to reach its function constructor: a property of a value is
  read with a key in brackets, and a string literal may write each character as a
  backslash and three octal digits, the first at most 3. The empty array has the method
  \<open>filter\<close>, every function has the property \<open>constructor\<close>, which is the function
  constructor, and the function it makes from the text \<open>while(1);\<close> does not return when
  called. \<open>string_literal\<close> reads a string literal after its opening double quote and
  gives its value and the rest of the text; \<open>runs_forever\<close> recognises the body that
  returns the value of that call on the empty array.
\<close>

fun string_literal :: "string \<Rightarrow> (string \<times> string) option" where
  "string_literal [] = None"
| "string_literal (c # cs) =
     (if c = CHR 0x22 then Some ([], cs)
      else if c = CHR 0x5C then
        (case cs of
           a # b # d # r \<Rightarrow>
             (if a \<in> set ''0123'' \<and> b \<in> set ''01234567'' \<and> d \<in> set ''01234567''
              then map_option
                     (\<lambda>(s, r'). (char_of (64 * digit_val a + 8 * digit_val b + digit_val d) # s, r'))
                     (string_literal r)
              else None)
         | _ \<Rightarrow> None)
      else if c = CHR 0x0A \<or> c = CHR 0x0D then None
      else map_option (\<lambda>(s, r'). (c # s, r')) (string_literal cs))"

definition expect :: "string \<Rightarrow> string \<Rightarrow> string option" where
  "expect p t = (if take (length p) t = p then Some (drop (length p) t) else None)"

definition runs_forever :: "string \<Rightarrow> bool" where
  "runs_forever body =
     (case expect (''return []['' @ [CHR 0x22]) body of
        None \<Rightarrow> False
      | Some t1 \<Rightarrow>
     (case string_literal t1 of
        None \<Rightarrow> False
      | Some (key1, t2) \<Rightarrow>
     (case expect ('']['' @ [CHR 0x22]) t2 of
        None \<Rightarrow> False
      | Some t3 \<Rightarrow>
     (case string_literal t3 of
        None \<Rightarrow> False
      | Some (key2, t4) \<Rightarrow>
     (case expect ('']('' @ [CHR 0x22]) t4 of
        None \<Rightarrow> False
      | Some t5 \<Rightarrow>
     (case string_literal t5 of
        None \<Rightarrow> False
      | Some (code, t6) \<Rightarrow>
          key1 = ''filter'' \<and> key2 = ''constructor'' \<and> code = ''while(1);''
          \<and> t6 = '')()''))))))"

definition js_call :: "string \<Rightarrow> jsval answer" where
  "js_call body =
     (case js_run body of
        Some (Return v) \<Rightarrow> Gives v
      | Some Throw \<Rightarrow> Throws
      | None \<Rightarrow> if runs_forever body then Hangs else Unmodelled)"

definition js_host :: host where
  "js_host = \<lparr>h_regexp = js_regexp, h_number_text = js_number_text, h_call = js_call\<rparr>"

subsection \<open>Values whose texts do not interfere\<close>

text \<open>
  Every value has a text, no text has a dollar sign (a dollar sign in a replacement text
  is a pattern of the replacement), and no text contains the name of a parameter as a
  run. \<open>with_text\<close> is the parameter with its value replaced by that text.
\<close>

definition plain_texts :: "host \<Rightarrow> parameter list \<Rightarrow> bool" where
  "plain_texts h P =
     list_all (\<lambda>p. case value_text h (p_value p) of
                      Gives v \<Rightarrow> CHR ''$'' \<notin> set v
                                 \<and> list_all (\<lambda>q. Word (p_name q) \<notin> set (chunks v)) P
                    | _ \<Rightarrow> False) P"

definition with_text :: "host \<Rightarrow> parameter \<Rightarrow> parameter" where
  "with_text h p =
     p\<lparr>p_value := VStr (case value_text h (p_value p) of Gives v \<Rightarrow> v | _ \<Rightarrow> [])\<rparr>"

section \<open>The evaluation as the specification words it\<close>

text \<open>
  Section 8: the result of substituting each parameter's value for its name and
  evaluating the expression. The value takes the place of the name as an operand: the
  formula is cut into tokens, each name token becomes the number of its parameter, and
  the tokens are evaluated.
\<close>

definition token_value :: "parameter list \<Rightarrow> token \<Rightarrow> token option" where
  "token_value P t =
     (case t of
        TId w \<Rightarrow>
          (case find (\<lambda>p. p_name p = w) P of
             None \<Rightarrow> None
           | Some p \<Rightarrow> (case p_value p of VNum (Fin q) \<Rightarrow> Some (TNum q) | _ \<Rightarrow> None))
      | _ \<Rightarrow> Some t)"

definition spec_evaluate :: "string \<Rightarrow> parameter list \<Rightarrow> jsnum option" where
  "spec_evaluate F P =
     (case lex (chunks F) of
        None \<Rightarrow> None
      | Some ts \<Rightarrow>
          (case those (map (token_value P) ts) of
             None \<Rightarrow> None
           | Some ts' \<Rightarrow>
               (case shunt ts' True [] [] of
                  Some (Return (Num x)) \<Rightarrow> Some x
                | _ \<Rightarrow> None)))"

text \<open>
  Section 4.1: every whole-word occurrence of a parameter's name is replaced by the text
  of its value, per parameter and independent of order. All runs are replaced at once,
  each by the text of the parameter of that name.
\<close>

definition param_text :: "parameter \<Rightarrow> string" where
  "param_text p = (case value_toString (p_value p) of Some v \<Rightarrow> v | None \<Rightarrow> [])"

definition simultaneous :: "parameter list \<Rightarrow> string \<Rightarrow> string" where
  "simultaneous P text =
     concat (map (\<lambda>c. case c of
                        Sep x \<Rightarrow> [x]
                      | Word w \<Rightarrow> (case find (\<lambda>p. p_name p = w) P of
                                     None \<Rightarrow> w
                                   | Some p \<Rightarrow> param_text p))
               (chunks text))"

text \<open>A parameter inside the model of the replacement.\<close>

definition modelled :: "parameter \<Rightarrow> bool" where
  "modelled p =
     (word_name (p_name p) \<and>
      (case value_toString (p_value p) of None \<Rightarrow> False | Some v \<Rightarrow> CHR ''$'' \<notin> set v))"

text \<open>No value's text contains the name of a parameter as a run.\<close>

definition inert :: "parameter list \<Rightarrow> bool" where
  "inert P =
     list_all (\<lambda>p. list_all (\<lambda>q. Word (p_name q) \<notin> set (chunks (param_text p))) P) P"

text \<open>A parameter with an identifier as its name and an integer as its value.\<close>

definition numeric_param :: "parameter \<Rightarrow> bool" where
  "numeric_param p =
     (is_identifier (Word (p_name p)) \<and> list_all is_word (p_name p) \<and>
      (case p_value p of
         VNum (Fin q) \<Rightarrow> of_int \<lfloor>q\<rfloor> = q \<and> \<bar>q\<bar> \<le> 2 ^ 53
       | _ \<Rightarrow> False))"

text \<open>Auxiliary notions for the proofs about runs.\<close>

fun wf_chunks :: "chunk list \<Rightarrow> bool" where
  "wf_chunks [] = True"
| "wf_chunks (Sep c # r) = (\<not> is_word c \<and> wf_chunks r)"
| "wf_chunks (Word w # r) =
     (word_name w \<and> (case r of Word _ # _ \<Rightarrow> False | _ \<Rightarrow> True) \<and> wf_chunks r)"

definition step_chunks :: "string \<Rightarrow> string \<Rightarrow> chunk list \<Rightarrow> chunk list" where
  "step_chunks n v cs = concat (map (\<lambda>c. if c = Word n then chunks v else [c]) cs)"

definition sim_chunks :: "parameter list \<Rightarrow> chunk list \<Rightarrow> chunk list" where
  "sim_chunks P cs =
     concat (map (\<lambda>c. case c of
                        Sep x \<Rightarrow> [Sep x]
                      | Word w \<Rightarrow> (case find (\<lambda>p. p_name p = w) P of
                                     None \<Rightarrow> [Word w]
                                   | Some p \<Rightarrow> chunks (param_text p)))
               cs)"

section \<open>Notions for the comparison of the two evaluations\<close>

text \<open>A numeric parameter whose value is not negative: the text of its value is a run of digits.\<close>

definition nonneg_param :: "parameter \<Rightarrow> bool" where
  "nonneg_param p =
     (numeric_param p \<and> (case p_value p of VNum (Fin q) \<Rightarrow> 0 \<le> q | _ \<Rightarrow> False))"

text \<open>
  No name stands next to a dot. Digits put in the place of a name that touches a dot would
  join the neighbouring digits into one decimal literal.
\<close>

definition dot_name :: "chunk \<Rightarrow> chunk \<Rightarrow> bool" where
  "dot_name a b = (a = Sep CHR ''.'' \<and> is_identifier b)"

fun dot_free :: "chunk list \<Rightarrow> bool" where
  "dot_free (a # b # r) = (\<not> dot_name a b \<and> \<not> dot_name b a \<and> dot_free (b # r))"
| "dot_free _ = True"

text \<open>The replacement as it acts on one run, and the substitution as it acts on one token.\<close>

definition subst_chunk :: "parameter list \<Rightarrow> chunk \<Rightarrow> chunk" where
  "subst_chunk P c =
     (case c of
        Sep x \<Rightarrow> Sep x
      | Word w \<Rightarrow> (case find (\<lambda>p. p_name p = w) P of
                     None \<Rightarrow> Word w
                   | Some p \<Rightarrow> Word (param_text p)))"

definition subst_token :: "parameter list \<Rightarrow> token \<Rightarrow> token" where
  "subst_token P t = (case token_value P t of Some t' \<Rightarrow> t' | None \<Rightarrow> t)"

section \<open>The selection and its handlers (the create-proposal page)\<close>

text \<open>
  Each handler is a function from the state before to the state after. The first argument
  of a handler that prices elements is the evaluator it calls, a function from a formula
  and the parameters to a number.
\<close>

text \<open>
  The part of the page's state that the handlers below share: the selected modules,
  parameters and priced elements. The stored template, the custom modules and the form
  fields take no part in the computations.
\<close>

record selection =
  selectedModules :: "module_rec list"
  selectedParameters :: "parameter list"
  selectedElements :: "priced list"

definition materialFormula :: "priced \<Rightarrow> string" where
  "materialFormula el =
     (if v_formula el \<noteq> [] then v_formula el else string_or (e_formula (v_element el)) [])"

definition laborFormula :: "priced \<Rightarrow> string" where
  "laborFormula el =
     (if v_labor_formula el \<noteq> [] then v_labor_formula el
      else string_or (e_labor_formula (v_element el)) [])"

definition calculateElementCosts ::
  "(string \<Rightarrow> parameter list \<Rightarrow> jsnum) \<Rightarrow> priced list \<Rightarrow> parameter list \<Rightarrow> priced list" where
  "calculateElementCosts ev elements parameters =
     map (\<lambda>el. el\<lparr>v_name := Some (e_name (v_element el)),
                   v_material_cost := ev (materialFormula el) parameters,
                   v_labor_cost := ev (laborFormula el) parameters\<rparr>) elements"

definition handleTemplateSelect ::
  "(string \<Rightarrow> parameter list \<Rightarrow> jsnum) \<Rightarrow> template \<Rightarrow> selection \<Rightarrow> selection" where
  "handleTemplateSelect ev template s =
     (let templateElements = list_or (tp_template_elements template) [];
          parametersList = list_or (tp_parameters template) [];
          elementsFromTemplate =
            map (\<lambda>templateElement.
                  \<lparr>v_id = e_id (t_element templateElement),
                   v_element = t_element templateElement,
                   v_module = t_module templateElement,
                   v_formula = string_or (e_formula (t_element templateElement)) [],
                   v_labor_formula = string_or (e_labor_formula (t_element templateElement)) [],
                   v_material_cost = Fin 0,
                   v_labor_cost = Fin 0,
                   v_markup = (case t_markup templateElement of
                                 None \<Rightarrow> Fin 10 | Some k \<Rightarrow> num_or k (Fin 10)),
                   v_name = None\<rparr>) templateElements
      in s\<lparr>selectedModules := list_or (tp_modules template) [],
           selectedParameters := parametersList,
           selectedElements := calculateElementCosts ev elementsFromTemplate parametersList\<rparr>)"

definition handleModuleToggle :: "module_rec \<Rightarrow> selection \<Rightarrow> selection" where
  "handleModuleToggle modl s =
     (case find (\<lambda>m. m_id m = m_id modl) (selectedModules s) of
        Some _ \<Rightarrow>
          s\<lparr>selectedElements :=
               filter (\<lambda>element. m_id (v_module element) \<noteq> m_id modl) (selectedElements s),
             selectedModules := filter (\<lambda>m. m_id m \<noteq> m_id modl) (selectedModules s)\<rparr>
      | None \<Rightarrow> s\<lparr>selectedModules := selectedModules s @ [modl]\<rparr>)"

definition handleParameterValueUpdate ::
  "(string \<Rightarrow> parameter list \<Rightarrow> jsnum) \<Rightarrow> nat \<Rightarrow> pvalue \<Rightarrow> selection \<Rightarrow> selection" where
  "handleParameterValueUpdate ev parameterId val s =
     (let newParameters =
            map (\<lambda>param. if p_id param = parameterId then param\<lparr>p_value := val\<rparr> else param)
              (selectedParameters s);
          updatedElements = calculateElementCosts ev (selectedElements s) newParameters
      in s\<lparr>selectedParameters := newParameters, selectedElements := updatedElements\<rparr>)"

definition handleParameterToggle ::
  "(string \<Rightarrow> parameter list \<Rightarrow> jsnum) \<Rightarrow> parameter \<Rightarrow> selection \<Rightarrow> selection" where
  "handleParameterToggle ev parameter s =
     (let prev = selectedParameters s;
          newParameters =
            (case find (\<lambda>p. p_id p = p_id parameter) prev of
               Some _ \<Rightarrow> filter (\<lambda>p. p_id p \<noteq> p_id parameter) prev
             | None \<Rightarrow> prev @ [parameter]);
          updatedElements = calculateElementCosts ev (selectedElements s) newParameters
      in s\<lparr>selectedElements := updatedElements, selectedParameters := newParameters\<rparr>)"

definition same_pair :: "element_def \<Rightarrow> module_rec \<Rightarrow> priced \<Rightarrow> bool" where
  "same_pair element modl e =
     (e_id (v_element e) = e_id element \<and> m_id (v_module e) = m_id modl)"

text \<open>The second argument is the clock reading that becomes the new element's id.\<close>

definition handleElementToggle ::
  "(string \<Rightarrow> parameter list \<Rightarrow> jsnum) \<Rightarrow> nat \<Rightarrow> element_def \<Rightarrow> module_rec
     \<Rightarrow> selection \<Rightarrow> selection" where
  "handleElementToggle ev now element modl s =
     (let prev = selectedElements s
      in case find (same_pair element modl) prev of
           Some _ \<Rightarrow> s\<lparr>selectedElements := filter (\<lambda>e. \<not> same_pair element modl e) prev\<rparr>
         | None \<Rightarrow>
             (let safeElement =
                    element\<lparr>e_description := Some (string_or (e_description element) [])\<rparr>;
                  newElement =
                    \<lparr>v_id = now,
                     v_element = safeElement,
                     v_module = modl,
                     v_formula = string_or (e_formula element) [],
                     v_labor_formula = string_or (e_labor_formula element) [],
                     v_material_cost = Fin 0,
                     v_labor_cost = Fin 0,
                     v_markup = Fin 10,
                     v_name = None\<rparr>;
                  materialCost = ev (v_formula newElement) (selectedParameters s);
                  laborCost = ev (v_labor_formula newElement) (selectedParameters s)
              in s\<lparr>selectedElements :=
                     prev @ [newElement\<lparr>v_material_cost := materialCost,
                                        v_labor_cost := laborCost\<rparr>]\<rparr>))"

text \<open>
  The key that \<open>handleElementValueUpdate\<close> writes: one of the formula and number
  properties of a priced element. For a formula key the computed property set by the
  number is overwritten by the formula text in the same object literal.
\<close>

datatype element_field = FFormula | FLaborFormula | FMarkup | FMaterialCost | FLaborCost

fun set_field :: "element_field \<Rightarrow> string \<Rightarrow> jsnum \<Rightarrow> priced \<Rightarrow> priced" where
  "set_field FFormula formula val e = e\<lparr>v_formula := formula\<rparr>"
| "set_field FLaborFormula formula val e = e\<lparr>v_labor_formula := formula\<rparr>"
| "set_field FMarkup formula val e = e\<lparr>v_markup := val\<rparr>"
| "set_field FMaterialCost formula val e = e\<lparr>v_material_cost := val\<rparr>"
| "set_field FLaborCost formula val e = e\<lparr>v_labor_cost := val\<rparr>"

definition handleElementValueUpdate ::
  "(string \<Rightarrow> parameter list \<Rightarrow> jsnum) \<Rightarrow> nat \<Rightarrow> module_rec \<Rightarrow> element_field \<Rightarrow> string \<Rightarrow> jsnum
     \<Rightarrow> selection \<Rightarrow> selection" where
  "handleElementValueUpdate ev elementId modl fld formula val s =
     (let newElements =
            map (\<lambda>e. if e_id (v_element e) = elementId \<and> m_id (v_module e) = m_id modl
                      then set_field fld formula val e else e) (selectedElements s)
      in if fld = FFormula \<or> fld = FLaborFormula
         then s\<lparr>selectedElements := calculateElementCosts ev newElements (selectedParameters s)\<rparr>
         else s\<lparr>selectedElements := newElements\<rparr>)"

text \<open>The operations on the selection, as one type.\<close>

datatype mutation =
    ParameterValueUpdate nat pvalue
  | ParameterToggle parameter
  | ElementValueUpdate nat module_rec element_field string jsnum
  | ElementToggle nat element_def module_rec
  | ModuleToggle module_rec
  | TemplateSelect template

fun mutate :: "(string \<Rightarrow> parameter list \<Rightarrow> jsnum) \<Rightarrow> mutation \<Rightarrow> selection \<Rightarrow> selection" where
  "mutate ev (ParameterValueUpdate i v) s = handleParameterValueUpdate ev i v s"
| "mutate ev (ParameterToggle p) s = handleParameterToggle ev p s"
| "mutate ev (ElementValueUpdate i m f formula v) s = handleElementValueUpdate ev i m f formula v s"
| "mutate ev (ElementToggle now e m) s = handleElementToggle ev now e m s"
| "mutate ev (ModuleToggle m) s = handleModuleToggle m s"
| "mutate ev (TemplateSelect t) s = handleTemplateSelect ev t s"

text \<open>An element value update that writes a cost property directly.\<close>

fun writes_cost :: "mutation \<Rightarrow> bool" where
  "writes_cost (ElementValueUpdate i m f formula v) = (f = FMaterialCost \<or> f = FLaborCost)"
| "writes_cost _ = False"

subsection \<open>Invariants\<close>

text \<open>
  The costs of every priced element are the evaluator's output for the formulas that
  \<open>calculateElementCosts\<close> evaluates: the element's own formula or, when that is empty,
  the formula of its element definition.
\<close>

definition costs_current :: "(string \<Rightarrow> parameter list \<Rightarrow> jsnum) \<Rightarrow> selection \<Rightarrow> bool" where
  "costs_current ev s =
     list_all (\<lambda>el. v_material_cost el = ev (materialFormula el) (selectedParameters s)
                  \<and> v_labor_cost el = ev (laborFormula el) (selectedParameters s))
       (selectedElements s)"

text \<open>The same with the element's own two formula properties, as the invariant is worded.\<close>

definition costs_of_own_formulas ::
  "(string \<Rightarrow> parameter list \<Rightarrow> jsnum) \<Rightarrow> selection \<Rightarrow> bool" where
  "costs_of_own_formulas ev s =
     list_all (\<lambda>el. v_material_cost el = ev (v_formula el) (selectedParameters s)
                  \<and> v_labor_cost el = ev (v_labor_formula el) (selectedParameters s))
       (selectedElements s)"

definition pair_of :: "priced \<Rightarrow> nat \<times> nat" where
  "pair_of e = (e_id (v_element e), m_id (v_module e))"

definition unique_pairs :: "selection \<Rightarrow> bool" where
  "unique_pairs s = distinct (map pair_of (selectedElements s))"

definition template_pairs :: "template \<Rightarrow> (nat \<times> nat) list" where
  "template_pairs t =
     map (\<lambda>te. (e_id (t_element te), m_id (t_module te))) (list_or (tp_template_elements t) [])"

section \<open>Example values\<close>

definition mk_param :: "string \<Rightarrow> pvalue \<Rightarrow> parameter" where
  "mk_param n v = \<lparr>p_id = 0, p_name = n, p_value = v, p_type = ''number''\<rparr>"

definition mk_module :: "nat \<Rightarrow> module_rec" where
  "mk_module i = \<lparr>m_id = i, m_name = [], m_description = None\<rparr>"

definition mk_element :: "nat \<Rightarrow> string \<Rightarrow> element_def" where
  "mk_element i f =
     \<lparr>e_id = i, e_name = [], e_description = None, e_formula = Some f, e_labor_formula = None\<rparr>"

definition mk_priced :: "nat \<Rightarrow> nat \<Rightarrow> rat \<Rightarrow> rat \<Rightarrow> rat \<Rightarrow> priced" where
  "mk_priced e m material labor markup =
     \<lparr>v_id = e,
      v_element = \<lparr>e_id = e, e_name = [], e_description = None, e_formula = None,
                   e_labor_formula = None\<rparr>,
      v_module = mk_module m,
      v_formula = [], v_labor_formula = [],
      v_material_cost = Fin material, v_labor_cost = Fin labor, v_markup = Fin markup,
      v_name = None\<rparr>"

definition params_wh :: "parameter list" where
  "params_wh = [mk_param ''w'' (VNum (Fin 9)), mk_param ''width'' (VNum (Fin 5))]"

definition params_ab :: "parameter list" where
  "params_ab = [mk_param ''a'' (VNum (Fin 5)), mk_param ''b'' (VNum (Fin (- 3)))]"

definition params_text :: "parameter list" where
  "params_text = [mk_param ''a'' (VStr ''b''), mk_param ''b'' (VNum (Fin 2))]"

definition empty_selection :: selection where
  "empty_selection = \<lparr>selectedModules = [], selectedParameters = [], selectedElements = []\<rparr>"

text \<open>One module, the parameter \<open>x = 3\<close>, and one element of formula \<open>x * 2\<close> toggled in.\<close>

definition priced_selection :: selection where
  "priced_selection =
     handleElementToggle (evaluate_with js_run) 0 (mk_element 1 ''x * 2'') (mk_module 1)
       \<lparr>selectedModules = [mk_module 1],
        selectedParameters = [mk_param ''x'' (VNum (Fin 3))],
        selectedElements = []\<rparr>"

text \<open>Modules 1 and 2 selected, two elements priced under module 1 and one under module 2.\<close>

definition two_modules :: selection where
  "two_modules =
     \<lparr>selectedModules = [mk_module 1, mk_module 2],
      selectedParameters = [],
      selectedElements = [mk_priced 1 1 100 50 10, mk_priced 2 1 200 0 20, mk_priced 1 2 30 0 10]\<rparr>"

text \<open>A template that lists the same element under the same module twice.\<close>

definition duplicate_template :: template where
  "duplicate_template =
     \<lparr>tp_id = 1, tp_modules = Some [mk_module 1], tp_parameters = Some [],
      tp_template_elements =
        Some [\<lparr>t_element = mk_element 1 ''2'', t_module = mk_module 1, t_markup = None\<rparr>,
              \<lparr>t_element = mk_element 1 ''2'', t_module = mk_module 1, t_markup = None\<rparr>]\<rparr>"

text \<open>
  A formula without a letter: the call of the function that the function constructor
  makes from \<open>while(1);\<close>, every character of the three string literals written as a
  backslash and three octal digits.
\<close>

definition octal_escape :: "char \<Rightarrow> string" where
  "octal_escape c =
     [CHR 0x5C, digit_char (of_char c div 64), digit_char (of_char c div 8 mod 8),
      digit_char (of_char c mod 8)]"

definition quoted :: "string \<Rightarrow> string" where
  "quoted s = CHR 0x22 # concat (map octal_escape s) @ [CHR 0x22]"

definition looping_formula :: string where
  "looping_formula =
     ''[]['' @ quoted ''filter'' @ '']['' @ quoted ''constructor'' @ '']('' @ quoted ''while(1);''
     @ '')()''"

section \<open>Properties of the aggregation\<close>

lemma subtotal_elementTotal:
  "useGlobal \<or> truthy (v_markup e) \<Longrightarrow> subtotal useGlobal g e = elementTotal useGlobal g e"
  by (auto simp: subtotal_def elementTotal_def effectiveMarkup_def num_or_def Let_def)

lemma calculateTotalCost_grandTotal:
  assumes "useGlobal \<or> (\<forall>e \<in> set es. truthy (v_markup e))"
  shows "calculateTotalCost useGlobal g es = grandTotal useGlobal g es"
proof -
  have "map (subtotal useGlobal g) es = map (elementTotal useGlobal g) es"
    using assms by (auto intro: subtotal_elementTotal)
  then have "foldl js_add (Fin 0) (map (subtotal useGlobal g) es)
      = foldl js_add (Fin 0) (map (elementTotal useGlobal g) es)"
    by (rule arg_cong)
  then show ?thesis
    unfolding calculateTotalCost_def grandTotal_def foldl_map .
qed

lemma calculateTotalCost_override:
  "calculateTotalCost True g (map (\<lambda>e. e\<lparr>v_markup := k\<rparr>) es) = calculateTotalCost True g es"
  by (simp add: calculateTotalCost_def foldl_map subtotal_def)

lemma aggregation_examples:
  "calculateTotalCost False (Fin 15) [mk_priced 1 1 100 50 10, mk_priced 2 1 200 0 20] = Fin 405"
  "calculateTotalCost True (Fin 15) [mk_priced 1 1 100 50 10, mk_priced 2 1 200 0 20]
     = Fin (805 / 2)"
  by (simp_all add: calculateTotalCost_def subtotal_def mk_priced_def num_or_def)

text \<open>
  C2. The grand total is the sum of (material + labor) * (1 + effectiveMarkup / 100), the
  effective markup being the element's own markup while the override is off. The code
  reads the own markup as \<open>element.markup || 10\<close>: an element whose markup is 0 is
  priced with 10 percent. For one element of material 100, labor 50 and markup 0 the code
  totals 165 where the stated sum is 150. For markups other than 0, and with the override
  on, the code computes the stated sum (\<open>calculateTotalCost_grandTotal\<close>).
\<close>

theorem C2_zero_markup_priced_at_ten:
  "calculateTotalCost False (Fin 15) [mk_priced 1 1 100 50 0] = Fin 165
   \<and> grandTotal False (Fin 15) [mk_priced 1 1 100 50 0] = Fin 150"
  by (simp add: calculateTotalCost_def grandTotal_def elementTotal_def effectiveMarkup_def
      subtotal_def mk_priced_def num_or_def)

section \<open>Runs of a text\<close>

lemma chunks_Word_hd: "chunks t = Word w # r \<Longrightarrow> t \<noteq> [] \<and> is_word (hd t)"
  by (cases t) (auto split: if_splits)

lemma chunks_eq_Nil [simp]: "chunks t = [] \<longleftrightarrow> t = []"
  by (cases t) (auto split: list.splits chunk.splits)

lemma wf_chunks_chunks: "wf_chunks (chunks t)"
proof (induction t)
  case Nil
  then show ?case by simp
next
  case (Cons c t)
  show ?case
  proof (cases "is_word c")
    case False
    with Cons show ?thesis by simp
  next
    case True
    show ?thesis
    proof (cases "chunks t")
      case Nil
      with True show ?thesis by (simp add: word_name_def)
    next
      case (Cons a r)
      with True Cons.IH show ?thesis
        by (cases a) (auto simp: word_name_def)
    qed
  qed
qed

text \<open>Two texts that do not meet inside a run are cut independently.\<close>

lemma chunks_append:
  assumes "u = [] \<or> r = [] \<or> \<not> is_word (last u) \<or> \<not> is_word (hd r)"
  shows "chunks (u @ r) = chunks u @ chunks r"
  using assms
proof (induction u)
  case Nil
  then show ?case by simp
next
  case (Cons c u)
  show ?case
  proof (cases "u = []")
    case True
    show ?thesis
    proof (cases "is_word c")
      case False
      with True show ?thesis by simp
    next
      case w: True
      have "r = [] \<or> \<not> is_word (hd r)" using Cons.prems True w by auto
      then have "\<forall>x y. chunks r \<noteq> Word x # y" using chunks_Word_hd by blast
      then show ?thesis using True w
        by (cases "chunks r") (auto split: chunk.splits)
    qed
  next
    case False
    then have ih: "chunks (u @ r) = chunks u @ chunks r"
      using Cons by auto
    from False have "chunks u \<noteq> []" by simp
    then show ?thesis using ih
      by (cases "chunks u") (auto split: chunk.splits)
  qed
qed

lemma chunks_word: "word_name w \<Longrightarrow> chunks w = [Word w]"
proof (induction w)
  case Nil
  then show ?case by (simp add: word_name_def)
next
  case (Cons c w)
  then show ?case
    by (cases w) (auto simp: word_name_def)
qed

lemma wf_chunks_tl: "wf_chunks (c # cs) \<Longrightarrow> wf_chunks cs"
  by (cases c) auto

lemma chunks_concat_map:
  assumes "wf_chunks cs" and "\<And>y. g (Sep y) = [y]"
  shows "chunks (concat (map g cs)) = concat (map (\<lambda>c. chunks (g c)) cs)"
  using assms(1)
proof (induction cs)
  case Nil
  then show ?case by simp
next
  case (Cons c cs)
  then have ih: "chunks (concat (map g cs)) = concat (map (\<lambda>c. chunks (g c)) cs)"
    using wf_chunks_tl by blast
  have "g c = [] \<or> concat (map g cs) = [] \<or> \<not> is_word (last (g c))
        \<or> \<not> is_word (hd (concat (map g cs)))"
  proof (cases c)
    case (Sep y)
    with Cons.prems assms(2) show ?thesis by simp
  next
    case (Word w)
    show ?thesis
    proof (cases cs)
      case Nil
      then show ?thesis by simp
    next
      case ds: (Cons d ds)
      with Word Cons.prems obtain y where y: "d = Sep y" by (cases d) auto
      from Cons.prems have "wf_chunks cs" by (rule wf_chunks_tl)
      with ds y have "\<not> is_word y" by simp
      with ds y assms(2) show ?thesis by simp
    qed
  qed
  then have "chunks (g c @ concat (map g cs)) = chunks (g c) @ chunks (concat (map g cs))"
    by (rule chunks_append)
  with ih show ?case by simp
qed

lemma concat_chunk_text: "concat (map chunk_text (chunks t)) = t"
proof (induction t)
  case Nil
  then show ?case by simp
next
  case (Cons c t)
  then show ?case
    by (cases "chunks t") (auto split: chunk.splits)
qed

lemma wf_chunks_member:
  "wf_chunks cs \<Longrightarrow> c \<in> set cs \<Longrightarrow> (case c of Word w \<Rightarrow> word_name w | Sep y \<Rightarrow> \<not> is_word y)"
proof (induction cs)
  case Nil
  then show ?case by simp
next
  case (Cons d cs)
  then show ?case by (cases d) auto
qed

lemma chunks_chunk_text:
  "wf_chunks cs \<Longrightarrow> c \<in> set cs \<Longrightarrow> chunks (chunk_text c) = [c]"
  using wf_chunks_member [of cs c] by (cases c) (auto simp: chunks_word)

section \<open>One replacement, and all of them\<close>

lemma replace_word_chunks:
  assumes "replace_word n v t = Some t'"
  shows "chunks t' = step_chunks n v (chunks t)"
proof -
  let ?g = "\<lambda>ch. if ch = Word n then v else chunk_text ch"
  from assms have t': "t' = concat (map ?g (chunks t))"
    by (auto simp: replace_word_def split: if_splits)
  have "chunks (concat (map ?g (chunks t))) = concat (map (\<lambda>c. chunks (?g c)) (chunks t))"
    by (rule chunks_concat_map) (simp_all add: wf_chunks_chunks)
  also have "map (\<lambda>c. chunks (?g c)) (chunks t)
      = map (\<lambda>c. if c = Word n then chunks v else [c]) (chunks t)"
    using chunks_chunk_text [OF wf_chunks_chunks] by (intro map_cong) auto
  finally show ?thesis by (simp add: t' step_chunks_def)
qed

lemma sim_chunks_append: "sim_chunks P (a @ b) = sim_chunks P a @ sim_chunks P b"
  by (simp add: sim_chunks_def)

lemma sim_chunks_id:
  "\<forall>q \<in> set P. Word (p_name q) \<notin> set ds \<Longrightarrow> sim_chunks P ds = ds"
proof (induction ds)
  case Nil
  then show ?case by (simp add: sim_chunks_def)
next
  case (Cons d ds)
  then have ih: "sim_chunks P ds = ds" by simp
  have "sim_chunks P [d] = [d]"
  proof (cases d)
    case (Sep x)
    then show ?thesis by (simp add: sim_chunks_def)
  next
    case (Word w)
    with Cons.prems have "find (\<lambda>p. p_name p = w) P = None"
      by (auto simp: find_None_iff)
    with Word show ?thesis by (simp add: sim_chunks_def)
  qed
  with ih show ?case
    using sim_chunks_append [of P "[d]" ds] by simp
qed

lemma sim_chunks_step:
  assumes "\<forall>q \<in> set ps. Word (p_name q) \<notin> set (chunks (param_text p))"
  shows "sim_chunks ps (step_chunks (p_name p) (param_text p) cs) = sim_chunks (p # ps) cs"
proof (induction cs)
  case Nil
  then show ?case by (simp add: sim_chunks_def step_chunks_def)
next
  case (Cons c cs)
  have split: "step_chunks (p_name p) (param_text p) (c # cs)
      = (if c = Word (p_name p) then chunks (param_text p) else [c])
        @ step_chunks (p_name p) (param_text p) cs"
    by (simp add: step_chunks_def)
  have hd: "sim_chunks ps (if c = Word (p_name p) then chunks (param_text p) else [c])
      = sim_chunks (p # ps) [c]"
  proof (cases "c = Word (p_name p)")
    case True
    then show ?thesis
      using sim_chunks_id [OF assms] by (simp add: sim_chunks_def)
  next
    case False
    then show ?thesis
      by (cases c) (auto simp: sim_chunks_def)
  qed
  have "sim_chunks (p # ps) (c # cs) = sim_chunks (p # ps) [c] @ sim_chunks (p # ps) cs"
    using sim_chunks_append [of "p # ps" "[c]" cs] by simp
  with split hd Cons show ?case
    by (simp add: sim_chunks_append)
qed

lemma modelled_text:
  assumes "modelled p"
  obtains v where "value_toString (p_value p) = Some v" and "CHR ''$'' \<notin> set v"
    and "param_text p = v" and "word_name (p_name p)"
proof (cases "value_toString (p_value p)")
  case None
  with assms show ?thesis by (simp add: modelled_def)
next
  case (Some v)
  with assms that show ?thesis by (simp add: modelled_def param_text_def)
qed

lemma substitute_chunks:
  assumes "list_all modelled P"
    and "\<forall>p \<in> set P. \<forall>q \<in> set P. Word (p_name q) \<notin> set (chunks (param_text p))"
  shows "\<exists>t'. substitute P t = Some t' \<and> chunks t' = sim_chunks P (chunks t)"
  using assms
proof (induction P arbitrary: t)
  case Nil
  then show ?case by (simp add: sim_chunks_id)
next
  case (Cons p ps)
  from Cons.prems(1) have "modelled p" by simp
  then obtain v where v: "value_toString (p_value p) = Some v"
    and dollar: "CHR ''$'' \<notin> set v" and pt: "param_text p = v"
    and name: "word_name (p_name p)"
    by (rule modelled_text)
  from name dollar obtain t1 where t1: "replace_word (p_name p) v t = Some t1"
    by (simp add: replace_word_def)
  then have c1: "chunks t1 = step_chunks (p_name p) v (chunks t)"
    by (rule replace_word_chunks)
  from Cons.prems have "list_all modelled ps"
    and "\<forall>p \<in> set ps. \<forall>q \<in> set ps. Word (p_name q) \<notin> set (chunks (param_text p))"
    by auto
  with Cons.IH obtain t' where t': "substitute ps t1 = Some t'"
    and c': "chunks t' = sim_chunks ps (chunks t1)" by blast
  have "\<forall>q \<in> set ps. Word (p_name q) \<notin> set (chunks (param_text p))"
    using Cons.prems(2) by auto
  then have "sim_chunks ps (step_chunks (p_name p) (param_text p) (chunks t))
      = sim_chunks (p # ps) (chunks t)"
    by (rule sim_chunks_step)
  with c1 c' pt have "chunks t' = sim_chunks (p # ps) (chunks t)" by simp
  moreover have "substitute (p # ps) t = Some t'"
    using v t1 t' by simp
  ultimately show ?case by blast
qed

lemma sim_chunks_text: "concat (map chunk_text (sim_chunks P cs)) =
    concat (map (\<lambda>c. case c of Sep x \<Rightarrow> [x]
       | Word w \<Rightarrow> (case find (\<lambda>p. p_name p = w) P of None \<Rightarrow> w | Some p \<Rightarrow> param_text p)) cs)"
proof (induction cs)
  case Nil
  then show ?case by (simp add: sim_chunks_def)
next
  case (Cons c cs)
  have "sim_chunks P (c # cs) = sim_chunks P [c] @ sim_chunks P cs"
    using sim_chunks_append [of P "[c]" cs] by simp
  moreover have "concat (map chunk_text (sim_chunks P [c])) =
      (case c of Sep x \<Rightarrow> [x]
       | Word w \<Rightarrow> (case find (\<lambda>p. p_name p = w) P of None \<Rightarrow> w | Some p \<Rightarrow> param_text p))"
    by (cases c) (auto simp: sim_chunks_def concat_chunk_text split: option.splits)
  ultimately show ?case using Cons by simp
qed

text \<open>
  For parameters inside the model whose values name no parameter, the replacements one
  after the other are the replacement of all runs at once.
\<close>

lemma substitute_simultaneous:
  assumes "list_all modelled P" and "inert P"
  shows "substitute P t = Some (simultaneous P t)"
proof -
  from assms(2) have "\<forall>p \<in> set P. \<forall>q \<in> set P. Word (p_name q) \<notin> set (chunks (param_text p))"
    by (simp add: inert_def list_all_iff)
  with assms(1) obtain t' where t': "substitute P t = Some t'"
    and c: "chunks t' = sim_chunks P (chunks t)"
    using substitute_chunks by blast
  have "t' = concat (map chunk_text (chunks t'))" by (simp add: concat_chunk_text)
  also have "\<dots> = simultaneous P t"
    unfolding c sim_chunks_text simultaneous_def ..
  finally show ?thesis using t' by simp
qed

lemma find_same_set:
  assumes "inj_on f (set xs)" and "set xs = set ys"
  shows "find (\<lambda>x. f x = k) xs = find (\<lambda>x. f x = k) ys"
proof (cases "find (\<lambda>x. f x = k) xs")
  case None
  then have "\<forall>x \<in> set ys. f x \<noteq> k" using assms(2) by (auto simp: find_None_iff)
  then have "find (\<lambda>x. f x = k) ys = None" by (simp add: find_None_iff)
  with None show ?thesis by simp
next
  case (Some a)
  then have a: "a \<in> set xs" "f a = k"
    by (auto simp: find_Some_iff)
  then have "\<exists>x \<in> set ys. f x = k" using assms(2) by auto
  then obtain b where b: "find (\<lambda>x. f x = k) ys = Some b"
    by (cases "find (\<lambda>x. f x = k) ys") (auto simp: find_None_iff)
  then have "b \<in> set ys" "f b = k" by (auto simp: find_Some_iff)
  with a assms have "a = b" by (auto dest: inj_onD)
  with Some b show ?thesis by simp
qed

lemma simultaneous_perm:
  assumes "distinct (map p_name P)" and "set P' = set P"
  shows "simultaneous P' t = simultaneous P t"
proof -
  from assms(1) have "inj_on p_name (set P)" by (simp add: distinct_map)
  then have "\<And>w. find (\<lambda>p. p_name p = w) P = find (\<lambda>p. p_name p = w) P'"
    using assms(2) by (intro find_same_set) auto
  then show ?thesis by (simp add: simultaneous_def cong: chunk.case_cong)
qed

lemma substitute_perm:
  assumes "list_all modelled P" and "inert P" and "distinct (map p_name P)"
    and "set P' = set P"
  shows "substitute P' t = substitute P t"
proof -
  have "list_all modelled P'" "inert P'"
    using assms by (auto simp: list_all_iff inert_def)
  then have "substitute P' t = Some (simultaneous P' t)" by (rule substitute_simultaneous)
  moreover have "substitute P t = Some (simultaneous P t)"
    using assms(1,2) by (rule substitute_simultaneous)
  ultimately show ?thesis using simultaneous_perm [OF assms(3,4)] by simp
qed

lemma step_chunks_keeps:
  "c \<in> set cs \<Longrightarrow> c \<noteq> Word n \<Longrightarrow> c \<in> set (step_chunks n v cs)"
  by (induction cs) (auto simp: step_chunks_def)

text \<open>A run that is no parameter's name survives every replacement.\<close>

lemma substitute_keeps_word:
  assumes "list_all modelled P" and "Word w \<in> set (chunks t)" and "w \<notin> p_name ` set P"
  shows "\<exists>t'. substitute P t = Some t' \<and> Word w \<in> set (chunks t')"
  using assms
proof (induction P arbitrary: t)
  case Nil
  then show ?case by simp
next
  case (Cons p ps)
  from Cons.prems(1) have "modelled p" by simp
  then obtain v where v: "value_toString (p_value p) = Some v"
    and dollar: "CHR ''$'' \<notin> set v" and pt: "param_text p = v"
    and name: "word_name (p_name p)"
    by (rule modelled_text)
  from name dollar obtain t1 where t1: "replace_word (p_name p) v t = Some t1"
    by (simp add: replace_word_def)
  then have "chunks t1 = step_chunks (p_name p) v (chunks t)"
    by (rule replace_word_chunks)
  moreover have "Word w \<noteq> Word (p_name p)" using Cons.prems(3) by auto
  ultimately have "Word w \<in> set (chunks t1)"
    using Cons.prems(2) by (simp add: step_chunks_keeps)
  moreover have "list_all modelled ps" "w \<notin> p_name ` set ps"
    using Cons.prems by auto
  ultimately obtain t' where "substitute ps t1 = Some t'" "Word w \<in> set (chunks t')"
    using Cons.IH by blast
  with v t1 show ?case by simp
qed

section \<open>Numeric parameters\<close>

lemma digit_char_digit: "is_digit (digit_char n)"
proof -
  have "n mod 10 < 10" by simp
  then have "n mod 10 = 0 \<or> n mod 10 = 1 \<or> n mod 10 = 2 \<or> n mod 10 = 3
    \<or> n mod 10 = 4 \<or> n mod 10 = 5 \<or> n mod 10 = 6 \<or> n mod 10 = 7
    \<or> n mod 10 = 8 \<or> n mod 10 = 9"
    by arith
  then show ?thesis
    by (elim disjE) (simp_all add: is_digit_def digit_char_def)
qed

lemma nat_digits_digits: "nat_digits n \<noteq> [] \<and> list_all is_digit (nat_digits n)"
proof (induction n rule: nat_digits.induct)
  case (1 n)
  show ?case
  proof (cases "n < 10")
    case True
    then have "nat_digits n = [digit_char n]" by (subst nat_digits.simps) simp
    then show ?thesis by (simp add: digit_char_digit)
  next
    case False
    then have "nat_digits n = nat_digits (n div 10) @ [digit_char n]"
      by (subst nat_digits.simps) simp
    with 1 False show ?thesis by (simp add: digit_char_digit)
  qed
qed

lemma digit_not_ident_start: "is_digit c \<Longrightarrow> \<not> is_ident_start c"
  by (auto simp: is_digit_def is_ident_start_def)

lemma digits_word_name: "ds \<noteq> [] \<Longrightarrow> list_all is_digit ds \<Longrightarrow> word_name ds"
  by (auto simp: word_name_def is_word_def list_all_iff)

lemma digits_no_dollar: "list_all is_digit ds \<Longrightarrow> CHR ''$'' \<notin> set ds"
proof
  assume "list_all is_digit ds" and "CHR ''$'' \<in> set ds"
  then have "is_digit CHR ''$''" by (simp add: list_all_iff)
  then show False by (simp add: is_digit_def)
qed

lemma chunks_integer_text:
  assumes "ds \<noteq> []" and "list_all is_digit ds"
  shows "chunks ds = [Word ds]" and "chunks (CHR ''-'' # ds) = [Sep CHR ''-'', Word ds]"
proof -
  show "chunks ds = [Word ds]" using assms by (simp add: chunks_word digits_word_name)
  then show "chunks (CHR ''-'' # ds) = [Sep CHR ''-'', Word ds]"
    by (simp add: is_word_def is_digit_def is_ident_start_def)
qed

text \<open>The text of an integer value: digits, after a minus sign when it is negative.\<close>

lemma numeric_param_text:
  assumes "numeric_param p"
  obtains ds where "ds \<noteq> []" "list_all is_digit ds"
    "value_toString (p_value p) = Some ds \<or> value_toString (p_value p) = Some (CHR ''-'' # ds)"
proof -
  from assms obtain q where q: "p_value p = VNum (Fin q)" "of_int \<lfloor>q\<rfloor> = q" "\<bar>q\<bar> \<le> 2 ^ 53"
    by (auto simp: numeric_param_def split: pvalue.splits jsnum.splits)
  let ?ds = "nat_digits (nat \<bar>\<lfloor>q\<rfloor>\<bar>)"
  have "value_toString (p_value p) = Some ((if q < 0 then ''-'' else []) @ ?ds)"
    using q by (simp add: value_toString_def number_toString_def)
  then have "value_toString (p_value p) = Some ?ds
      \<or> value_toString (p_value p) = Some (CHR ''-'' # ?ds)"
    by (cases "q < 0") simp_all
  with nat_digits_digits [of "nat \<bar>\<lfloor>q\<rfloor>\<bar>"] that show ?thesis by blast
qed

lemma numeric_param_name:
  assumes "numeric_param p"
  shows "word_name (p_name p)"
proof -
  from assms have "is_identifier (Word (p_name p))" and "list_all is_word (p_name p)"
    unfolding numeric_param_def by blast+
  then show ?thesis
    by (cases "p_name p") (simp_all add: word_name_def)
qed

lemma numeric_param_modelled:
  assumes "numeric_param p"
  shows "modelled p"
proof -
  have name: "word_name (p_name p)" using assms by (rule numeric_param_name)
  from assms obtain ds where ne: "ds \<noteq> []" and ds: "list_all is_digit ds"
    and v: "value_toString (p_value p) = Some ds
            \<or> value_toString (p_value p) = Some (CHR ''-'' # ds)"
    by (rule numeric_param_text)
  from ds have nd: "CHR ''$'' \<notin> set ds" by (rule digits_no_dollar)
  from v show ?thesis
  proof
    assume "value_toString (p_value p) = Some ds"
    with name nd show ?thesis by (simp add: modelled_def)
  next
    assume "value_toString (p_value p) = Some (CHR ''-'' # ds)"
    with name nd show ?thesis by (simp add: modelled_def)
  qed
qed

text \<open>Integer values under identifier names name no parameter.\<close>

lemma numeric_params_inert:
  assumes "list_all numeric_param P"
  shows "inert P"
proof -
  have "Word (p_name q) \<notin> set (chunks (param_text p))"
    if p: "p \<in> set P" and q: "q \<in> set P" for p q
  proof -
    from assms p q have np: "numeric_param p" and nq: "numeric_param q"
      by (simp_all add: list_all_iff)
    from nq have start: "is_identifier (Word (p_name q))" by (simp add: numeric_param_def)
    from np obtain ds where ne: "ds \<noteq> []" and ds: "list_all is_digit ds"
      and v: "value_toString (p_value p) = Some ds
              \<or> value_toString (p_value p) = Some (CHR ''-'' # ds)"
      by (rule numeric_param_text)
    from ne ds have "\<not> is_identifier (Word ds)"
      by (cases ds) (simp_all add: digit_not_ident_start)
    with start have neq: "p_name q \<noteq> ds" by auto
    from v show ?thesis
    proof
      assume "value_toString (p_value p) = Some ds"
      then have "param_text p = ds" by (simp add: param_text_def)
      with neq chunks_integer_text(1) [OF ne ds] show ?thesis by simp
    next
      assume "value_toString (p_value p) = Some (CHR ''-'' # ds)"
      then have "param_text p = CHR ''-'' # ds" by (simp add: param_text_def)
      with neq chunks_integer_text(2) [OF ne ds] show ?thesis by simp
    qed
  qed
  then show ?thesis by (simp add: inert_def list_all_iff)
qed

text \<open>
  With integer values under identifier names, a formula whose names are all parameters
  has no identifier-like token left after the replacements.
\<close>

lemma numeric_text_no_identifier:
  assumes "numeric_param p" and "c \<in> set (chunks (param_text p))"
  shows "\<not> is_identifier c"
proof -
  from assms(1) obtain ds where ne: "ds \<noteq> []" and ds: "list_all is_digit ds"
    and v: "value_toString (p_value p) = Some ds
            \<or> value_toString (p_value p) = Some (CHR ''-'' # ds)"
    by (rule numeric_param_text)
  from ne ds have nid: "\<not> is_identifier (Word ds)"
    by (cases ds) (simp_all add: digit_not_ident_start)
  from v show ?thesis
  proof
    assume "value_toString (p_value p) = Some ds"
    then have "param_text p = ds" by (simp add: param_text_def)
    with assms(2) chunks_integer_text(1) [OF ne ds] nid show ?thesis by simp
  next
    assume "value_toString (p_value p) = Some (CHR ''-'' # ds)"
    then have "param_text p = CHR ''-'' # ds" by (simp add: param_text_def)
    with assms(2) chunks_integer_text(2) [OF ne ds] nid show ?thesis by auto
  qed
qed

lemma sim_chunks_no_identifier:
  assumes "list_all numeric_param P"
    and "\<forall>w. Word w \<in> set cs \<longrightarrow> is_identifier (Word w) \<longrightarrow> w \<in> p_name ` set P"
  shows "filter is_identifier (sim_chunks P cs) = []"
  using assms(2)
proof (induction cs)
  case Nil
  then show ?case by (simp add: sim_chunks_def)
next
  case (Cons c cs)
  then have ih: "filter is_identifier (sim_chunks P cs) = []" by simp
  have "filter is_identifier (sim_chunks P [c]) = []"
  proof (cases c)
    case (Sep x)
    then show ?thesis by (simp add: sim_chunks_def)
  next
    case (Word w)
    show ?thesis
    proof (cases "find (\<lambda>p. p_name p = w) P")
      case None
      then have "w \<notin> p_name ` set P" by (auto simp: find_None_iff)
      with Cons.prems Word have "\<not> is_identifier (Word w)" by auto
      with Word None show ?thesis by (simp add: sim_chunks_def)
    next
      case (Some p)
      then have "p \<in> set P" by (auto simp: find_Some_iff)
      with assms(1) have "numeric_param p" by (simp add: list_all_iff)
      then have "\<forall>d \<in> set (chunks (param_text p)). \<not> is_identifier d"
        using numeric_text_no_identifier by blast
      then have "filter is_identifier (chunks (param_text p)) = []"
        by (simp add: filter_empty_conv)
      with Word Some show ?thesis by (simp add: sim_chunks_def)
    qed
  qed
  with ih show ?case
    using sim_chunks_append [of P "[c]" cs] by simp
qed

lemma numeric_params_substitute:
  assumes "list_all numeric_param P"
    and "\<forall>w. Word w \<in> set (chunks F) \<longrightarrow> is_identifier (Word w) \<longrightarrow> w \<in> p_name ` set P"
  shows "substitute P F = Some (simultaneous P F)
       \<and> remainingParamMatch (simultaneous P F) = []"
proof -
  from assms(1) have m: "list_all modelled P"
    by (simp add: list_all_iff numeric_param_modelled)
  from assms(1) have i: "inert P" by (rule numeric_params_inert)
  from m i have s: "substitute P F = Some (simultaneous P F)"
    by (rule substitute_simultaneous)
  from i have "\<forall>p \<in> set P. \<forall>q \<in> set P. Word (p_name q) \<notin> set (chunks (param_text p))"
    by (simp add: inert_def list_all_iff)
  with m obtain t' where "substitute P F = Some t'"
    and "chunks t' = sim_chunks P (chunks F)"
    using substitute_chunks by blast
  with s have "chunks (simultaneous P F) = sim_chunks P (chunks F)" by simp
  with sim_chunks_no_identifier [OF assms] s show ?thesis
    by (simp add: remainingParamMatch_def)
qed

section \<open>The code's evaluation and the specification's, for values that are not negative\<close>

text \<open>
  For parameters with integer values that are not negative, and a formula in which no name
  touches a dot, replacing names by texts and then cutting into tokens gives the tokens
  of the formula with each name token replaced by its number. The code then returns the
  number of the specification's evaluation, unless that number is NaN.
\<close>

lemma digit_val_digit_char: "digit_val (digit_char n) = n mod 10"
proof -
  have "n mod 10 < 10" by simp
  then have "n mod 10 = 0 \<or> n mod 10 = 1 \<or> n mod 10 = 2 \<or> n mod 10 = 3
    \<or> n mod 10 = 4 \<or> n mod 10 = 5 \<or> n mod 10 = 6 \<or> n mod 10 = 7
    \<or> n mod 10 = 8 \<or> n mod 10 = 9"
    by arith
  then show ?thesis
    by (elim disjE) (simp_all add: digit_val_def digit_char_def)
qed

lemma decimal_snoc: "decimal (ds @ [c]) = 10 * decimal ds + digit_val c"
  by (simp add: decimal_def)

lemma decimal_nat_digits: "decimal (nat_digits n) = n"
proof (induction n rule: nat_digits.induct)
  case (1 n)
  show ?case
  proof (cases "n < 10")
    case True
    then have "nat_digits n = [digit_char n]" by (subst nat_digits.simps) simp
    with True show ?thesis by (simp add: decimal_def digit_val_digit_char)
  next
    case False
    then have "nat_digits n = nat_digits (n div 10) @ [digit_char n]"
      by (subst nat_digits.simps) simp
    with 1 False show ?thesis
      by (simp add: decimal_snoc digit_val_digit_char)
  qed
qed

lemma digit_char_zero: "digit_char n = CHR ''0'' \<Longrightarrow> n mod 10 = 0"
proof -
  assume a: "digit_char n = CHR ''0''"
  have "digit_val (digit_char n) = n mod 10" by (rule digit_val_digit_char)
  with a show ?thesis by (simp add: digit_val_def)
qed

lemma hd_nat_digits: "hd (nat_digits n) = CHR ''0'' \<Longrightarrow> n = 0"
proof (induction n rule: nat_digits.induct)
  case (1 n)
  show ?case
  proof (cases "n < 10")
    case True
    then have "nat_digits n = [digit_char n]" by (subst nat_digits.simps) simp
    with "1.prems" have "n mod 10 = 0" by (simp add: digit_char_zero)
    with True show ?thesis by simp
  next
    case False
    then have e: "nat_digits n = nat_digits (n div 10) @ [digit_char n]"
      by (subst nat_digits.simps) simp
    have "nat_digits (n div 10) \<noteq> []" using nat_digits_digits by blast
    with e "1.prems" have "hd (nat_digits (n div 10)) = CHR ''0''" by simp
    with 1 False have "n div 10 = 0" by simp
    with False show ?thesis by simp
  qed
qed

lemma int_literal_nat_digits: "int_literal (nat_digits n)"
proof (cases "nat_digits n")
  case Nil
  with nat_digits_digits [of n] show ?thesis by simp
next
  case (Cons c r)
  have "c = CHR ''0'' \<Longrightarrow> r = []"
  proof -
    assume "c = CHR ''0''"
    with Cons have "hd (nat_digits n) = CHR ''0''" by simp
    then have "n = 0" by (rule hd_nat_digits)
    then have "nat_digits n = [digit_char 0]" by (subst nat_digits.simps) simp
    with Cons show "r = []" by simp
  qed
  with Cons nat_digits_digits [of n] show ?thesis by (auto simp: int_literal_def)
qed

lemma nonneg_param_text:
  assumes "nonneg_param p"
  obtains n where "p_value p = VNum (Fin (of_nat n))" and "param_text p = nat_digits n"
proof -
  from assms obtain q where q: "p_value p = VNum (Fin q)" "of_int \<lfloor>q\<rfloor> = q"
      "\<bar>q\<bar> \<le> 2 ^ 53" "0 \<le> q"
    by (auto simp: nonneg_param_def numeric_param_def split: pvalue.splits jsnum.splits)
  let ?n = "nat \<lfloor>q\<rfloor>"
  from q(4) have f: "0 \<le> \<lfloor>q\<rfloor>" by simp
  then have h: "(of_int \<lfloor>q\<rfloor> :: rat) = of_nat ?n" by simp
  have qn: "q = of_nat ?n" by (rule trans [OF q(2) [symmetric] h])
  from q f have "value_toString (p_value p) = Some (nat_digits ?n)"
    by (simp add: value_toString_def number_toString_def)
  then have pt: "param_text p = nat_digits ?n" by (simp add: param_text_def)
  have "p_value p = VNum (Fin (of_nat ?n))"
    by (subst qn [symmetric]) (rule q(1))
  with pt that show ?thesis by blast
qed

lemma subst_token_simps [simp]:
  "subst_token P (TNum q) = TNum q" "subst_token P TPlus = TPlus"
  "subst_token P TMinus = TMinus" "subst_token P TStar = TStar"
  "subst_token P TSlash = TSlash" "subst_token P TLParen = TLParen"
  "subst_token P TRParen = TRParen" "subst_token P TIncr = TIncr"
  "subst_token P TDecr = TDecr"
  by (simp_all add: subst_token_def token_value_def)

lemma map_subst_cons:
  "map_option (map (subst_token P)) (map_option ((#) t) x)
     = map_option ((#) (subst_token P t)) (map_option (map (subst_token P)) x)"
  by (cases x) simp_all

lemma dot_free_tl: "dot_free (c # r) \<Longrightarrow> dot_free r"
  by (cases r) simp_all

lemma subst_chunk_Sep [simp]: "subst_chunk P (Sep x) = Sep x"
  by (simp add: subst_chunk_def)

lemma nonneg_name_identifier:
  assumes "list_all nonneg_param P" and "find (\<lambda>p. p_name p = w) P = Some p"
  shows "is_identifier (Word w)" and "nonneg_param p"
proof -
  from assms(2) have "p \<in> set P" and n: "p_name p = w" by (auto simp: find_Some_iff)
  with assms(1) show np: "nonneg_param p" by (simp add: list_all_iff)
  then have "is_identifier (Word (p_name p))" by (simp add: nonneg_param_def numeric_param_def)
  with n show "is_identifier (Word w)" by simp
qed

lemma subst_chunk_other:
  assumes "list_all nonneg_param P" and "\<not> is_identifier (Word w)"
  shows "subst_chunk P (Word w) = Word w"
proof (cases "find (\<lambda>p. p_name p = w) P")
  case None
  then show ?thesis by (simp add: subst_chunk_def)
next
  case (Some p)
  with assms nonneg_name_identifier(1) show ?thesis by blast
qed

lemma subst_chunk_undeclared:
  assumes "find (\<lambda>p. p_name p = w) P = None"
  shows "subst_chunk P (Word w) = Word w" and "subst_token P (TId w) = TId w"
  using assms by (simp_all add: subst_chunk_def subst_token_def token_value_def)

lemma subst_chunk_declared:
  assumes "list_all nonneg_param P" and "find (\<lambda>p. p_name p = w) P = Some p"
  obtains n where "subst_chunk P (Word w) = Word (nat_digits n)"
    and "subst_token P (TId w) = TNum (of_nat n)"
proof -
  from assms have "nonneg_param p" by (rule nonneg_name_identifier(2))
  then obtain n where v: "p_value p = VNum (Fin (of_nat n))" and t: "param_text p = nat_digits n"
    by (rule nonneg_param_text)
  from assms(2) t have "subst_chunk P (Word w) = Word (nat_digits n)"
    by (simp add: subst_chunk_def)
  moreover from assms(2) v have "subst_token P (TId w) = TNum (of_nat n)"
    by (simp add: subst_token_def token_value_def)
  ultimately show ?thesis using that by blast
qed

lemma digits_not_identifier: "\<not> is_identifier (Word (nat_digits n))"
proof -
  from nat_digits_digits [of n] show ?thesis
    by (cases "nat_digits n") (simp_all add: digit_not_ident_start)
qed

lemma all_digits_not_identifier: "list_all is_digit f \<Longrightarrow> \<not> is_identifier (Word f)"
  by (cases f) (simp_all add: digit_not_ident_start)

lemma lex_int_nodot:
  assumes "\<not> is_identifier (Word w)" and "int_literal w"
    and "\<And>r'. r \<noteq> Sep CHR ''.'' # r'"
  shows "lex (Word w # r) = map_option ((#) (TNum (of_nat (decimal w)))) (lex r)"
proof (cases r)
  case Nil
  with assms(1,2) show ?thesis by simp
next
  case (Cons a r')
  show ?thesis
  proof (cases a)
    case (Word x)
    with Cons assms(1,2) show ?thesis by simp
  next
    case (Sep d)
    with Cons assms(3) [of r'] have d: "d \<noteq> CHR ''.''" by auto
    show ?thesis
    proof (cases r')
      case Nil
      with Cons Sep d assms(1,2) show ?thesis
        by (simp del: lex.simps(3))
    next
      case r': (Cons b r'')
      with Cons Sep d assms(1,2) show ?thesis
        by (cases b) (simp_all del: lex.simps(3))
    qed
  qed
qed

lemma lex_int_dot:
  assumes "\<not> is_identifier (Word w)" and "int_literal w"
  shows "lex (Word w # Sep CHR ''.'' # r') =
    (case r' of
       Word x # r'' \<Rightarrow>
         (if list_all is_digit x
          then map_option ((#) (TNum (of_nat (decimal w) + frac_value x))) (lex r'')
          else None)
     | _ \<Rightarrow> map_option ((#) (TNum (of_nat (decimal w)))) (lex r'))"
proof (cases r')
  case Nil
  with assms show ?thesis by simp
next
  case (Cons b r'')
  with assms show ?thesis
    by (cases b) (simp_all del: lex.simps(3))
qed

lemma lex_identifier:
  "is_identifier (Word w) \<Longrightarrow> lex (Word w # r) = map_option ((#) (TId w)) (lex r)"
  by simp

lemma lex_not_literal:
  "\<not> is_identifier (Word w) \<Longrightarrow> \<not> int_literal w \<Longrightarrow> lex (Word w # r) = None"
  by simp

lemma lex_subst:
  assumes P: "list_all nonneg_param P"
  shows "dot_free cs \<Longrightarrow>
    lex (map (subst_chunk P) cs) = map_option (map (subst_token P)) (lex cs)"
proof (induction "length cs" arbitrary: cs rule: less_induct)
  case less
  let ?f = "subst_chunk P" and ?g = "subst_token P"
  have IH: "lex (map ?f ds) = map_option (map ?g) (lex ds)"
    if "length ds < length cs" and "dot_free ds" for ds
    using less.hyps that by blast
  show ?case
  proof (cases cs)
    case Nil
    then show ?thesis by simp
  next
    case (Cons c0 r)
    have df_r: "dot_free r" using less.prems Cons dot_free_tl by blast
    have IHr: "lex (map ?f r) = map_option (map ?g) (lex r)"
      using IH [of r] Cons df_r by simp
    show ?thesis
    proof (cases c0)
      case c0: (Sep c)
      show ?thesis
      proof (cases r)
        case Nil
        with Cons c0 show ?thesis by simp
      next
        case r: (Cons a r')
        have df_r': "dot_free r'" using df_r r dot_free_tl by blast
        have IHr': "lex (map ?f r') = map_option (map ?g) (lex r')"
          using IH [of r'] Cons r df_r' by simp
        show ?thesis
        proof (cases a)
          case a: (Sep d)
          from IHr r a have IHr2: "lex (Sep d # map ?f r') = map_option (map ?g) (lex (Sep d # r'))"
            by simp
          show ?thesis
            unfolding Cons c0 r a
            using IHr2 IHr'
            by (auto simp del: lex.simps(2,3)
                simp add: lex.simps(3) [of c "Sep d # r'"] lex.simps(3) [of c "Sep d # map ?f r'"]
                  map_subst_cons)
        next
          case a: (Word f)
          from less.prems Cons c0 r a have nd: "\<not> (c = CHR ''.'' \<and> is_identifier (Word f))"
            by (simp add: dot_name_def)
          show ?thesis
          proof (cases "is_identifier (Word f)")
            case False
            with P have same: "?f (Word f) = Word f" by (rule subst_chunk_other)
            from IHr r a same
            have IHr2: "lex (Word f # map ?f r') = map_option (map ?g) (lex (Word f # r'))"
              by simp
            show ?thesis
              unfolding Cons c0 r a
              using IHr2 IHr'
              by (auto simp del: lex.simps(2,3)
                  simp add: lex.simps(3) [of c "Word f # r'"] lex.simps(3) [of c "Word f # map ?f r'"]
                    same map_subst_cons)
          next
            case True
            with nd have c: "c \<noteq> CHR ''.''" by simp
            obtain f' where f': "?f (Word f) = Word f'"
              by (cases "find (\<lambda>p. p_name p = f) P") (simp_all add: subst_chunk_def)
            from IHr r a f'
            have IHr2: "lex (Word f' # map ?f r') = map_option (map ?g) (lex (Word f # r'))"
              by simp
            show ?thesis
              unfolding Cons c0 r a
              using c IHr2
              by (auto simp del: lex.simps(2,3)
                  simp add: lex.simps(3) [of c "Word f # r'"] lex.simps(3) [of c "Word f' # map ?f r'"]
                    f' map_subst_cons)
          qed
        qed
      qed
    next
      case c0: (Word w)
      show ?thesis
      proof (cases "is_identifier (Word w)")
        case ident: True
        from less.prems Cons c0 ident have nodot: "r \<noteq> Sep CHR ''.'' # r'" for r'
          by (auto simp: dot_name_def)
        show ?thesis
        proof (cases "find (\<lambda>p. p_name p = w) P")
          case None
          then have "?f (Word w) = Word w" and "?g (TId w) = TId w"
            by (rule subst_chunk_undeclared)+
          with ident IHr show ?thesis
            unfolding Cons c0
            by (simp del: lex.simps(2,3) add: lex_identifier map_subst_cons)
        next
          case (Some p)
          with P obtain n where fw: "?f (Word w) = Word (nat_digits n)"
            and gw: "?g (TId w) = TNum (of_nat n)"
            by (rule subst_chunk_declared)
          have nodot': "map ?f r \<noteq> Sep CHR ''.'' # r'" for r'
          proof (cases r)
            case Nil
            then show ?thesis by simp
          next
            case r: (Cons a r0)
            with nodot show ?thesis
              by (cases a) (auto simp: subst_chunk_def split: option.splits)
          qed
          have "lex (Word (nat_digits n) # map ?f r)
              = map_option ((#) (TNum (of_nat (decimal (nat_digits n))))) (lex (map ?f r))"
            using digits_not_identifier int_literal_nat_digits nodot' by (rule lex_int_nodot)
          with ident IHr fw gw show ?thesis
            unfolding Cons c0
            by (simp del: lex.simps(2,3)
                add: lex_identifier map_subst_cons decimal_nat_digits)
        qed
      next
        case other: False
        with P have fw: "?f (Word w) = Word w" by (rule subst_chunk_other)
        show ?thesis
        proof (cases "int_literal w")
          case False
          with other fw show ?thesis
            unfolding Cons c0
            by (simp del: lex.simps(2,3) add: lex_not_literal)
        next
          case lit: True
          show ?thesis
          proof (cases "\<exists>r'. r = Sep CHR ''.'' # r'")
            case False
            then have nodot: "r \<noteq> Sep CHR ''.'' # r'" for r' by blast
            have nodot': "map ?f r \<noteq> Sep CHR ''.'' # r'" for r'
            proof (cases r)
              case Nil
              then show ?thesis by simp
            next
              case r: (Cons a r0)
              with nodot show ?thesis
                by (cases a) (auto simp: subst_chunk_def split: option.splits)
            qed
            from other lit nodot IHr fw show ?thesis
              unfolding Cons c0
              by (simp del: lex.simps(2,3)
                  add: lex_int_nodot [OF other lit nodot] lex_int_nodot [OF other lit nodot']
                    map_subst_cons)
          next
            case True
            then obtain r' where r: "r = Sep CHR ''.'' # r'" by blast
            have df_r': "dot_free r'" using df_r r dot_free_tl by blast
            have IHr': "lex (map ?f r') = map_option (map ?g) (lex r')"
              using IH [of r'] Cons r df_r' by simp
            show ?thesis
            proof (cases r')
              case Nil
              with other lit fw show ?thesis
                unfolding Cons c0 r
                by (simp del: lex.simps(2,3) add: lex_int_dot)
            next
              case r': (Cons b r'')
              have df_r'': "dot_free r''" using df_r' r' dot_free_tl by blast
              have IHr'': "lex (map ?f r'') = map_option (map ?g) (lex r'')"
                using IH [of r''] Cons r r' df_r'' by simp
              show ?thesis
              proof (cases b)
                case b: (Sep e)
                from IHr' r' b
                have "lex (Sep e # map ?f r'') = map_option (map ?g) (lex (Sep e # r''))"
                  by simp
                with other lit fw show ?thesis
                  unfolding Cons c0 r r' b
                  by (simp del: lex.simps(2,3) add: lex_int_dot map_subst_cons)
              next
                case b: (Word x)
                from df_r r r' b have nx: "\<not> is_identifier (Word x)"
                  by (simp add: dot_name_def)
                with P have fx: "?f (Word x) = Word x" by (rule subst_chunk_other)
                from other lit fw fx IHr'' show ?thesis
                  unfolding Cons c0 r r' b
                  by (simp del: lex.simps(2,3) add: lex_int_dot map_subst_cons)
              qed
            qed
          qed
        qed
      qed
    qed
  qed
qed

lemma token_value_Some:
  assumes "token_value P t = Some t'"
  shows "subst_token P t = t'" and "\<not> is_name_token t'"
proof -
  from assms show "subst_token P t = t'" by (simp add: subst_token_def)
  from assms show "\<not> is_name_token t'"
    by (cases t) (auto simp: token_value_def split: option.splits pvalue.splits jsnum.splits)
qed

lemma those_token_value:
  "those (map (token_value P) ts) = Some ts' \<Longrightarrow>
     ts' = map (subst_token P) ts \<and> \<not> list_ex is_name_token ts'"
proof (induction ts arbitrary: ts')
  case Nil
  then show ?case by simp
next
  case (Cons t ts)
  from Cons.prems obtain t1 ts1 where t1: "token_value P t = Some t1"
    and ts1: "those (map (token_value P) ts) = Some ts1" and e: "ts' = t1 # ts1"
    by (auto split: option.splits)
  from Cons.IH [OF ts1] token_value_Some [OF t1] e show ?case by auto
qed

lemma lex_keeps_identifier:
  "lex cs = Some ts \<Longrightarrow> c \<in> set cs \<Longrightarrow> is_identifier c \<Longrightarrow> list_ex is_name_token ts"
proof (induction "length cs" arbitrary: cs ts rule: less_induct)
  case less
  have IH: "list_ex is_name_token us"
    if "length ds < length cs" and "lex ds = Some us" and "c \<in> set ds" for ds us
    using less.hyps [OF that(1,2)] that(3) less.prems(3) by blast
  obtain w where cw: "c = Word w" using less.prems(3) by (cases c) simp_all
  show ?case
  proof (cases cs)
    case Nil
    with less.prems show ?thesis by simp
  next
    case (Cons c0 r)
    show ?thesis
    proof (cases c0)
      case c0: (Sep c1)
      with Cons less.prems cw have cr: "c \<in> set r" by auto
      show ?thesis
      proof (cases r)
        case Nil
        with cr show ?thesis by simp
      next
        case r: (Cons a r')
        have IHr: "lex r = Some us \<Longrightarrow> list_ex is_name_token us" for us
          using IH [of r us] Cons cr by simp
        show ?thesis
        proof (cases a)
          case a: (Sep d)
          with r cr cw have cr': "c \<in> set r'" by auto
          have IHr': "lex r' = Some us \<Longrightarrow> list_ex is_name_token us" for us
            using IH [of r' us] Cons r cr' by simp
          from less.prems(1) IHr IHr' show ?thesis
            unfolding Cons c0 r a
            by (auto simp del: lex.simps(2,3) simp add: lex.simps(3) [of c1 "Sep d # r'"]
                split: if_splits)
        next
          case a: (Word x)
          have IHr': "lex r' = Some us \<Longrightarrow> c \<in> set r' \<Longrightarrow> list_ex is_name_token us" for us
            using IH [of r' us] Cons r by simp
          from cr r a have "c = Word x \<or> c \<in> set r'" by auto
          with less.prems(3) have "\<not> list_all is_digit x \<or> c \<in> set r'"
            using all_digits_not_identifier [of x] by auto
          with less.prems(1) IHr IHr' show ?thesis
            unfolding Cons c0 r a
            by (auto simp del: lex.simps(2,3) simp add: lex.simps(3) [of c1 "Word x # r'"]
                split: if_splits)
        qed
      qed
    next
      case c0: (Word w0)
      show ?thesis
      proof (cases "is_identifier (Word w0)")
        case True
        with less.prems(1) show ?thesis
          unfolding Cons c0 by (auto simp del: lex.simps(3))
      next
        case other: False
        with less.prems(3) Cons c0 less.prems(2) have cr: "c \<in> set r" by auto
        from less.prems(1) other have lit: "int_literal w0"
          unfolding Cons c0 by (auto simp del: lex.simps(3) split: if_splits)
        have IHr: "lex r = Some us \<Longrightarrow> list_ex is_name_token us" for us
          using IH [of r us] Cons cr by simp
        show ?thesis
        proof (cases "\<exists>r'. r = Sep CHR ''.'' # r'")
          case False
          then have "r \<noteq> Sep CHR ''.'' # r'" for r' by blast
          with other lit have e: "lex (Word w0 # r)
              = map_option ((#) (TNum (of_nat (decimal w0)))) (lex r)"
            by (rule lex_int_nodot)
          from less.prems(1) have "map_option ((#) (TNum (of_nat (decimal w0)))) (lex r) = Some ts"
            unfolding Cons c0 e .
          then obtain us where "lex r = Some us" and "ts = TNum (of_nat (decimal w0)) # us"
            by auto
          with IHr [of us] show ?thesis by simp
        next
          case True
          then obtain r' where r: "r = Sep CHR ''.'' # r'" by blast
          with cr cw have cr': "c \<in> set r'" by auto
          have IHr': "lex r' = Some us \<Longrightarrow> list_ex is_name_token us" for us
            using IH [of r' us] Cons r cr' by simp
          show ?thesis
          proof (cases r')
            case Nil
            with cr' show ?thesis by simp
          next
            case r': (Cons b r'')
            have IHr'': "lex r'' = Some us \<Longrightarrow> c \<in> set r'' \<Longrightarrow> list_ex is_name_token us" for us
              using IH [of r'' us] Cons r r' by simp
            show ?thesis
            proof (cases b)
              case b: (Sep e)
              from less.prems(1) IHr' other lit show ?thesis
                unfolding Cons c0 r r' b
                by (auto simp del: lex.simps(2,3) simp add: lex_int_dot)
            next
              case b: (Word x)
              from cr' r' b have "c = Word x \<or> c \<in> set r''" by auto
              with less.prems(3) have "\<not> list_all is_digit x \<or> c \<in> set r''"
                using all_digits_not_identifier [of x] by auto
              with less.prems(1) IHr' IHr'' other lit show ?thesis
                unfolding Cons c0 r r' b
                by (auto simp del: lex.simps(2,3) simp add: lex_int_dot
                    split: if_splits)
            qed
          qed
        qed
      qed
    qed
  qed
qed

lemma nonneg_numeric: "nonneg_param p \<Longrightarrow> numeric_param p"
  by (simp add: nonneg_param_def)

lemma nonneg_chunks_text:
  assumes "nonneg_param p"
  shows "chunks (param_text p) = [Word (param_text p)]"
proof -
  from assms obtain n where "param_text p = nat_digits n"
    by (rule nonneg_param_text)
  with nat_digits_digits [of n] chunks_integer_text(1) [of "nat_digits n"]
  show ?thesis by simp
qed

lemma sim_chunks_subst:
  assumes "list_all nonneg_param P"
  shows "sim_chunks P cs = map (subst_chunk P) cs"
proof (induction cs)
  case Nil
  show ?case by (simp add: sim_chunks_def)
next
  case (Cons c cs)
  have "sim_chunks P [c] = [subst_chunk P c]"
  proof (cases c)
    case (Sep x)
    then show ?thesis by (simp add: sim_chunks_def subst_chunk_def)
  next
    case (Word w)
    show ?thesis
    proof (cases "find (\<lambda>p. p_name p = w) P")
      case None
      with Word show ?thesis by (simp add: sim_chunks_def subst_chunk_def)
    next
      case (Some p)
      then have "p \<in> set P" by (auto simp: find_Some_iff)
      with assms have "nonneg_param p" by (simp add: list_all_iff)
      then have "chunks (param_text p) = [Word (param_text p)]"
        by (rule nonneg_chunks_text)
      with Word Some show ?thesis by (simp add: sim_chunks_def subst_chunk_def)
    qed
  qed
  with Cons.IH show ?case
    using sim_chunks_append [of P "[c]" cs] by simp
qed

lemma numeric_params_chunks:
  assumes "list_all numeric_param P"
  shows "substitute P F = Some (simultaneous P F)
       \<and> chunks (simultaneous P F) = sim_chunks P (chunks F)"
proof -
  from assms have m: "list_all modelled P"
    by (simp add: list_all_iff numeric_param_modelled)
  from assms have i: "inert P" by (rule numeric_params_inert)
  from m i have s: "substitute P F = Some (simultaneous P F)"
    by (rule substitute_simultaneous)
  from i have "\<forall>p \<in> set P. \<forall>q \<in> set P. Word (p_name q) \<notin> set (chunks (param_text p))"
    by (simp add: inert_def list_all_iff)
  with m obtain t' where "substitute P F = Some t'"
    and "chunks t' = sim_chunks P (chunks F)"
    using substitute_chunks by blast
  with s show ?thesis by simp
qed

lemma spec_evaluate_Some:
  assumes "spec_evaluate F P = Some x"
  obtains ts ts' where "lex (chunks F) = Some ts"
    and "those (map (token_value P) ts) = Some ts'"
    and "shunt ts' True [] [] = Some (Return (Num x))"
  using assms
  by (auto simp: spec_evaluate_def split: option.splits completion.splits jsval.splits)

lemma evaluateFormula_refines_spec:
  assumes P: "list_all nonneg_param P" and df: "dot_free (chunks F)"
    and spec: "spec_evaluate F P = Some x" and x: "x \<noteq> NaN"
  shows "evaluateFormula js_run (Some F) P = Some x"
proof -
  from spec obtain ts ts' where l: "lex (chunks F) = Some ts"
    and th: "those (map (token_value P) ts) = Some ts'"
    and sh: "shunt ts' True [] [] = Some (Return (Num x))"
    by (rule spec_evaluate_Some)
  from th have ts': "ts' = map (subst_token P) ts" and nn: "\<not> list_ex is_name_token ts'"
    using those_token_value by blast+
  have ne: "F \<noteq> []"
  proof
    assume "F = []"
    with l th sh show False by simp
  qed
  from P have num: "list_all numeric_param P"
    by (simp add: list_all_iff nonneg_numeric)
  from numeric_params_chunks [OF num, of F] sim_chunks_subst [OF P, of "chunks F"]
  have s: "substitute P F = Some (simultaneous P F)"
    and c: "chunks (simultaneous P F) = map (subst_chunk P) (chunks F)"
    by simp_all
  from lex_subst [OF P df] l ts'
  have l': "lex (chunks (simultaneous P F)) = Some ts'"
    unfolding c by simp
  have "\<not> is_identifier d" if "d \<in> set (chunks (simultaneous P F))" for d
    using lex_keeps_identifier [OF l' that] nn by blast
  then have "filter is_identifier (chunks (simultaneous P F)) = []"
    by (simp add: filter_empty_conv)
  then have r: "remainingParamMatch (simultaneous P F) = []"
    by (simp add: remainingParamMatch_def)
  from l' nn sh have "js_run (''return '' @ simultaneous P F) = Some (Return (Num x))"
    by (simp add: js_run_def js_arith_def)
  with ne s r x show ?thesis
    by (simp add: evaluateFormula_def isNaN_def)
qed

lemma evaluateFormula_refines_spec_example:
  "evaluateFormula js_run (Some ''width * 2 + w'') params_wh = Some (Fin 19)"
proof -
  have 1: "list_all nonneg_param params_wh" by code_simp
  have 2: "dot_free (chunks ''width * 2 + w'')" by code_simp
  have 3: "spec_evaluate ''width * 2 + w'' params_wh = Some (Fin 19)" by code_simp
  from 1 2 3 show ?thesis by (rule evaluateFormula_refines_spec) simp
qed

section \<open>Properties of evaluateFormula\<close>

lemma evaluateFormula_empty:
  "evaluateFormula run None P = Some (Fin 0)" "evaluateFormula run (Some []) P = Some (Fin 0)"
  by (simp_all add: evaluateFormula_def)

lemma evaluateFormula_completes:
  assumes "substitute P F = Some t" and "run (''return '' @ t) = Some c"
  shows "\<exists>x. evaluateFormula run (Some F) P = Some x \<and> x \<noteq> NaN \<and> (c = Throw \<longrightarrow> x = Fin 0)"
proof (cases c)
  case Throw
  with assms show ?thesis by (simp add: evaluateFormula_def)
next
  case (Return v)
  with assms show ?thesis by (simp add: evaluateFormula_def isNaN_def)
qed

text \<open>A result of the host that is a number other than NaN is returned as it is.\<close>

lemma evaluateFormula_returns_result:
  assumes "F \<noteq> []" and "substitute P F = Some t" and "remainingParamMatch t = []"
    and "run (''return '' @ t) = Some (Return (Num x))" and "x \<noteq> NaN"
  shows "evaluateFormula run (Some F) P = Some x"
  using assms by (simp add: evaluateFormula_def isNaN_def)

lemma evaluateFormula_NaN_is_zero:
  assumes "substitute P F = Some t" and "run (''return '' @ t) = Some (Return r)" and "isNaN r"
  shows "evaluateFormula run (Some F) P = Some (Fin 0)"
  using assms by (simp add: evaluateFormula_def)

text \<open>
  C1. A substituted text whose value is not finite gives 0. The code tests the result
  with \<open>isNaN\<close> only: an infinite result passes the test and is returned. The formula
  \<open>10 / x\<close> with \<open>x = 0\<close> becomes the text \<open>10 / 0\<close>, whose value is Infinity, and
  \<open>evaluateFormula\<close> returns Infinity, not 0.
\<close>

theorem C1_division_by_zero_returns_infinity:
  "evaluateFormula js_run (Some ''10 / x'') [mk_param ''x'' (VNum (Fin 0))] = Some PInf"
  by code_simp

text \<open>
  For such parameters and formulas the result is the host's value of the text with every
  name replaced by its value, 0 where that value is NaN or the host throws.
\<close>

lemma evaluateFormula_numeric:
  assumes "list_all numeric_param P" and "F \<noteq> []"
    and "\<forall>w. Word w \<in> set (chunks F) \<longrightarrow> is_identifier (Word w) \<longrightarrow> w \<in> p_name ` set P"
  shows "evaluateFormula run (Some F) P =
     (case run (''return '' @ simultaneous P F) of
        None \<Rightarrow> None
      | Some Throw \<Rightarrow> Some (Fin 0)
      | Some (Return r) \<Rightarrow> Some (if isNaN r then Fin 0 else to_number r))"
  using numeric_params_substitute [OF assms(1,3)] assms(2)
  by (simp add: evaluateFormula_def)


text \<open>
  C3. For numeric parameter values and a formula over the parameters' names, the result
  is the arithmetic result of substituting each value for its name. The code substitutes
  the text of the value: a negative value that follows a minus sign makes the text
  \<open>5--3\<close>, in which the host reads the decrement operator and throws a syntax error,
  and the code returns 0. The arithmetic result of \<open>a-b\<close> at \<open>a = 5\<close>, \<open>b = -3\<close>
  is 8. For integer values that are not negative the code returns the arithmetic result
  (lemma \<open>evaluateFormula_refines_spec\<close>).
\<close>

theorem C3_negative_value_after_minus:
  "evaluateFormula js_run (Some ''a-b'') params_ab = Some (Fin 0)
   \<and> spec_evaluate ''a-b'' params_ab = Some (Fin 8)"
  by code_simp

lemma evaluateFormula_examples:
  "evaluateFormula js_run (Some ''length * width'')
     [mk_param ''length'' (VNum (Fin 5)), mk_param ''width'' (VNum (Fin 3))] = Some (Fin 15)"
  "spec_evaluate ''length * width''
     [mk_param ''length'' (VNum (Fin 5)), mk_param ''width'' (VNum (Fin 3))] = Some (Fin 15)"
  "evaluateFormula js_run (Some ''a - b'') params_ab = Some (Fin 8)"
  "evaluateFormula js_run (Some ''0 / 0'') [] = Some (Fin 0)"
  by code_simp+



text \<open>A formula that mentions a name of no parameter gives 0.\<close>

lemma absent_name_returns_zero:
  assumes "list_all modelled P" and "Word w \<in> set (chunks F)" and "is_identifier (Word w)"
    and "w \<notin> p_name ` set P"
  shows "evaluateFormula run (Some F) P = Some (Fin 0)"
proof -
  from assms(1,2,4) obtain t where t: "substitute P F = Some t" and w: "Word w \<in> set (chunks t)"
    using substitute_keeps_word by blast
  from w assms(3) have mem: "Word w \<in> set (filter is_identifier (chunks t))" by simp
  have "filter is_identifier (chunks t) \<noteq> []"
  proof
    assume e: "filter is_identifier (chunks t) = []"
    from mem show False unfolding e by simp
  qed
  then have "remainingParamMatch t \<noteq> []" by (simp add: remainingParamMatch_def)
  with t show ?thesis by (simp add: evaluateFormula_def)
qed

section \<open>Properties of evaluateFormula with every failure of the host\<close>

lemma value_text_old: "value_toString v = Some s \<Longrightarrow> value_text js_host v = Gives s"
  by (cases v) (simp_all add: value_toString_def value_text_def js_host_def js_number_text_def)

lemma replace_step_old:
  assumes "value_toString (p_value p) = Some v" and "replace_word (p_name p) v t = Some t'"
  shows "replace_step js_host t p = Gives t'"
proof -
  from assms(2) have "word_name (p_name p)"
    by (simp add: replace_word_def split: if_splits)
  with assms(2) value_text_old [OF assms(1)] show ?thesis
    by (simp add: replace_step_def regexp_of_def whole_token_replace_def)
qed

lemma substitute_in_old: "substitute P t = Some t' \<Longrightarrow> substitute_in js_host P t = Gives t'"
proof (induction P arbitrary: t)
  case Nil
  then show ?case by simp
next
  case (Cons p P)
  from Cons.prems obtain v t1 where v: "value_toString (p_value p) = Some v"
    and r: "replace_word (p_name p) v t = Some t1" and s: "substitute P t1 = Some t'"
    by (auto split: option.splits)
  from replace_step_old [OF v r] Cons.IH [OF s] show ?case by simp
qed

lemma evaluateFormula_in_old:
  assumes "evaluateFormula js_run formula P = Some x"
  shows "evaluateFormula_in js_host formula P = Gives x"
proof (cases formula)
  case None
  with assms show ?thesis by (simp add: evaluateFormula_def evaluateFormula_in_def)
next
  case (Some f)
  show ?thesis
  proof (cases "f = []")
    case True
    with assms Some show ?thesis by (simp add: evaluateFormula_def evaluateFormula_in_def)
  next
    case False
    with assms Some obtain t where t: "substitute P f = Some t"
      by (auto simp: evaluateFormula_def split: option.splits)
    have s: "substitute_in js_host P f = Gives t" using t by (rule substitute_in_old)
    show ?thesis
    proof (cases "remainingParamMatch t = []")
      case nonempty: False
      with assms Some False t s show ?thesis
        by (simp add: evaluateFormula_def evaluateFormula_in_def try_block_def)
    next
      case True
      with assms Some False t obtain c where c: "js_run (''return '' @ t) = Some c"
        by (auto simp: evaluateFormula_def split: option.splits)
      show ?thesis
      proof (cases c)
        case (Return r)
        with c have "js_call (''return '' @ t) = Gives r" by (simp add: js_call_def)
        with assms Some False t s True c Return show ?thesis
          by (simp add: evaluateFormula_def evaluateFormula_in_def try_block_def js_host_def)
      next
        case Throw
        with c have "js_call (''return '' @ t) = Throws" by (simp add: js_call_def)
        with assms Some False t s True c Throw show ?thesis
          by (simp add: evaluateFormula_def evaluateFormula_in_def try_block_def js_host_def)
      qed
    qed
  qed
qed

lemma evaluateFormula_in_absent:
  "evaluateFormula_in h None P = Gives (Fin 0)"
  "evaluateFormula_in h (Some []) P = Gives (Fin 0)"
  by (simp_all add: evaluateFormula_in_def)

lemma evaluateFormula_in_never_throws: "evaluateFormula_in h formula P \<noteq> Throws"
  by (simp add: evaluateFormula_in_def split: option.splits answer.splits)

lemma try_block_not_NaN: "try_block h f P \<noteq> Gives NaN"
proof (cases "substitute_in h P f")
  case (Gives t)
  show ?thesis
  proof (cases "h_call h (''return '' @ t)")
    case r: (Gives r)
    with Gives show ?thesis by (cases r) (simp_all add: try_block_def isNaN_def)
  qed (simp_all add: Gives try_block_def)
qed (simp_all add: try_block_def)

lemma evaluateFormula_in_not_NaN: "evaluateFormula_in h formula P \<noteq> Gives NaN"
  using try_block_not_NaN [of h _ P]
  by (auto simp: evaluateFormula_in_def split: option.splits answer.splits)

lemma evaluateFormula_in_caught:
  "try_block h f P = Throws \<Longrightarrow> evaluateFormula_in h (Some f) P = Gives (Fin 0)"
  by (simp add: evaluateFormula_in_def)

lemma replace_step_throws:
  "regexp_of h (p_name p) = Throws \<Longrightarrow> replace_step h t p = Throws"
  "regexp_of h (p_name p) = Gives rx \<Longrightarrow> value_text h (p_value p) = Throws
     \<Longrightarrow> replace_step h t p = Throws"
  by (simp_all add: replace_step_def)

lemma try_block_throws:
  "substitute_in h P f = Throws \<Longrightarrow> try_block h f P = Throws"
  "substitute_in h P f = Gives t \<Longrightarrow> remainingParamMatch t = [] \<Longrightarrow>
     h_call h (''return '' @ t) = Throws \<Longrightarrow> try_block h f P = Throws"
  by (simp_all add: try_block_def)

lemma evaluateFormula_in_returns:
  assumes "substitute_in h P f = Throws
     \<or> (\<exists>t. substitute_in h P f = Gives t
           \<and> (remainingParamMatch t \<noteq> [] \<or> h_call h (''return '' @ t) = Throws
               \<or> (\<exists>r. h_call h (''return '' @ t) = Gives r)))"
  shows "\<exists>x. evaluateFormula_in h (Some f) P = Gives x"
  using assms by (auto simp: evaluateFormula_in_def try_block_def)

lemma evaluateFormula_in_Hangs:
  "evaluateFormula_in h formula P = Hangs \<longleftrightarrow>
     (\<exists>f. formula = Some f \<and> f \<noteq> [] \<and> try_block h f P = Hangs)"
  by (auto simp: evaluateFormula_in_def split: option.splits answer.splits)

lemma evaluateFormula_in_examples:
  "evaluateFormula_in js_host (Some ''x + 1'') [mk_param ''f(x'' (VNum (Fin 1))] = Gives (Fin 0)"
  "evaluateFormula_in js_host (Some ''x + 1'') [mk_param ''x'' VNull] = Gives (Fin 0)"
  "evaluateFormula_in js_host (Some ''a-b'') params_ab = Gives (Fin 0)"
  "evaluateFormula_in js_host (Some ''a - b'') params_ab = Gives (Fin 8)"
  "evaluateFormula_in js_host None params_ab = Gives (Fin 0)"
  by code_simp+

section \<open>One step and the order of the steps\<close>

lemma replace_step_chunks:
  assumes "word_name (p_name p)" and "value_text h (p_value p) = Gives v"
    and "CHR ''$'' \<notin> set v"
  shows "\<exists>t'. replace_step h t p = Gives t' \<and> chunks t' = step_chunks (p_name p) v (chunks t)"
proof -
  from assms(1,3) obtain t' where r: "replace_word (p_name p) v t = Some t'"
    by (simp add: replace_word_def)
  with assms(1,2) have "replace_step h t p = Gives t'"
    by (simp add: replace_step_def regexp_of_def whole_token_replace_def)
  with replace_word_chunks [OF r] show ?thesis by simp
qed

lemma plain_texts_text:
  assumes "plain_texts h P" and "p \<in> set P"
  obtains v where "value_text h (p_value p) = Gives v" and "CHR ''$'' \<notin> set v"
    and "\<forall>q \<in> set P. Word (p_name q) \<notin> set (chunks v)"
proof -
  from assms have c: "case value_text h (p_value p) of
      Gives v \<Rightarrow> CHR ''$'' \<notin> set v
                 \<and> list_all (\<lambda>q. Word (p_name q) \<notin> set (chunks v)) P
    | _ \<Rightarrow> False"
    by (simp add: plain_texts_def list_all_iff)
  show ?thesis
  proof (cases "value_text h (p_value p)")
    case (Gives v)
    with c that [of v] show ?thesis by (simp add: list_all_iff)
  qed (use c in simp_all)
qed

lemma with_text_simps [simp]:
  "p_name (with_text h p) = p_name p"
  "p_value (with_text h p)
     = VStr (case value_text h (p_value p) of Gives v \<Rightarrow> v | _ \<Rightarrow> [])"
  by (simp_all add: with_text_def)

lemma substitute_with_text:
  assumes "list_all (\<lambda>p. word_name (p_name p)) P" and "plain_texts h Q" and "set P \<subseteq> set Q"
  shows "\<exists>t'. substitute (map (with_text h) P) t = Some t' \<and> substitute_in h P t = Gives t'"
  using assms(1,3)
proof (induction P arbitrary: t)
  case Nil
  then show ?case by simp
next
  case (Cons p P)
  from Cons.prems have n: "word_name (p_name p)" and pq: "p \<in> set Q" by simp_all
  from assms(2) pq obtain v where v: "value_text h (p_value p) = Gives v"
    and d: "CHR ''$'' \<notin> set v"
    by (rule plain_texts_text)
  from n d obtain t1 where r: "replace_word (p_name p) v t = Some t1"
    by (simp add: replace_word_def)
  from n v r have s: "replace_step h t p = Gives t1"
    by (simp add: replace_step_def regexp_of_def whole_token_replace_def)
  from Cons.prems have "list_all (\<lambda>p. word_name (p_name p)) P" "set P \<subseteq> set Q" by simp_all
  from Cons.IH [OF this, of t1] obtain t' where
    "substitute (map (with_text h) P) t1 = Some t'" "substitute_in h P t1 = Gives t'"
    by blast
  with v r s show ?case by (simp add: value_toString_def)
qed

lemma modelled_with_text:
  assumes "list_all (\<lambda>p. word_name (p_name p)) P" and "plain_texts h P"
  shows "list_all modelled (map (with_text h) P)"
proof -
  have "modelled (with_text h p)" if "p \<in> set P" for p
  proof -
    from assms(1) that have n: "word_name (p_name p)" by (simp add: list_all_iff)
    from assms(2) that obtain v where "value_text h (p_value p) = Gives v"
      and "CHR ''$'' \<notin> set v"
      by (rule plain_texts_text)
    with n show ?thesis by (simp add: modelled_def value_toString_def)
  qed
  then show ?thesis by (simp add: list_all_iff)
qed

lemma inert_with_text:
  assumes "plain_texts h P"
  shows "inert (map (with_text h) P)"
proof -
  have "Word (p_name q) \<notin> set (chunks (param_text (with_text h p)))"
    if "p \<in> set P" and "q \<in> set P" for p q
  proof -
    from assms that(1) obtain v where v: "value_text h (p_value p) = Gives v"
      and i: "\<forall>q \<in> set P. Word (p_name q) \<notin> set (chunks v)"
      by (rule plain_texts_text)
    from v have "param_text (with_text h p) = v"
      by (simp add: param_text_def value_toString_def)
    with i that(2) show ?thesis by simp
  qed
  then show ?thesis by (simp add: inert_def list_all_iff)
qed

lemma plain_texts_iff:
  "plain_texts h P \<longleftrightarrow>
     (\<forall>p \<in> set P. \<exists>v. value_text h (p_value p) = Gives v \<and> CHR ''$'' \<notin> set v
        \<and> (\<forall>q \<in> set P. Word (p_name q) \<notin> set (chunks v)))"
proof
  assume a: "plain_texts h P"
  show "\<forall>p \<in> set P. \<exists>v. value_text h (p_value p) = Gives v \<and> CHR ''$'' \<notin> set v
        \<and> (\<forall>q \<in> set P. Word (p_name q) \<notin> set (chunks v))"
  proof
    fix p assume "p \<in> set P"
    with a obtain v where "value_text h (p_value p) = Gives v" "CHR ''$'' \<notin> set v"
      "\<forall>q \<in> set P. Word (p_name q) \<notin> set (chunks v)"
      by (rule plain_texts_text)
    then show "\<exists>v. value_text h (p_value p) = Gives v \<and> CHR ''$'' \<notin> set v
        \<and> (\<forall>q \<in> set P. Word (p_name q) \<notin> set (chunks v))"
      by blast
  qed
next
  assume a: "\<forall>p \<in> set P. \<exists>v. value_text h (p_value p) = Gives v \<and> CHR ''$'' \<notin> set v
        \<and> (\<forall>q \<in> set P. Word (p_name q) \<notin> set (chunks v))"
  have "case value_text h (p_value p) of
      Gives v \<Rightarrow> CHR ''$'' \<notin> set v
                 \<and> list_all (\<lambda>q. Word (p_name q) \<notin> set (chunks v)) P
    | _ \<Rightarrow> False" if "p \<in> set P" for p
  proof -
    from a that obtain v where "value_text h (p_value p) = Gives v" "CHR ''$'' \<notin> set v"
      "\<forall>q \<in> set P. Word (p_name q) \<notin> set (chunks v)"
      by blast
    then show ?thesis by (simp add: list_all_iff)
  qed
  then show "plain_texts h P" by (simp add: plain_texts_def list_all_iff)
qed

lemma plain_texts_set:
  assumes "set P' = set P"
  shows "plain_texts h P' = plain_texts h P"
  unfolding plain_texts_iff assms ..

lemma substitute_in_perm:
  assumes n: "list_all (\<lambda>p. word_name (p_name p)) P" and pt: "plain_texts h P"
    and d: "distinct (map p_name P)" and m: "mset P' = mset P"
  shows "substitute_in h P' t = substitute_in h P t"
proof -
  from m have s: "set P' = set P" by (rule mset_eq_setD)
  from pt have pt': "plain_texts h P'" unfolding plain_texts_set [OF s] .
  from s n have n': "list_all (\<lambda>p. word_name (p_name p)) P'" by (simp add: list_all_iff)
  from substitute_with_text [OF n pt, of t] obtain a where
    a: "substitute (map (with_text h) P) t = Some a" "substitute_in h P t = Gives a"
    by auto
  from substitute_with_text [OF n' pt', of t] obtain b where
    b: "substitute (map (with_text h) P') t = Some b" "substitute_in h P' t = Gives b"
    by auto
  have d1: "distinct (map p_name (map (with_text h) P))" using d by (simp add: comp_def)
  have s1: "set (map (with_text h) P') = set (map (with_text h) P)" using s by simp
  have "substitute (map (with_text h) P') t = substitute (map (with_text h) P) t"
    by (rule substitute_perm [OF modelled_with_text [OF n pt] inert_with_text [OF pt] d1 s1])
  with a b show ?thesis by simp
qed

lemma evaluateFormula_in_perm:
  assumes "list_all (\<lambda>p. word_name (p_name p)) P" and "plain_texts h P"
    and "distinct (map p_name P)" and "mset P' = mset P"
  shows "evaluateFormula_in h formula P' = evaluateFormula_in h formula P"
proof -
  have "try_block h f P' = try_block h f P" for f
    using substitute_in_perm [OF assms, of f] by (simp add: try_block_def)
  then show ?thesis by (simp add: evaluateFormula_in_def cong: option.case_cong if_cong)
qed

text \<open>
  C5 (amended). One replacement step is word-boundary-correct: for a parameter whose name
  is a non-empty string of word characters and whose value has a text without a dollar
  sign, the step replaces all the runs of the text that are equal to the name, and only
  them, each by the text of the value; a run is a maximal string of word characters. When
  all the names are such strings and distinct, and every value has a text, without a
  dollar sign, that contains no name of a parameter as a run, then the steps together
  replace every run that is a name by the text of its parameter, and the result of
  \<open>evaluateFormula\<close> is the same for every order of the parameters. This holds for every
  host, hence for every text that the host gives a number.
\<close>

theorem C5_substitution_whole_token_and_order_free:
  "(word_name (p_name p) \<longrightarrow> value_text h (p_value p) = Gives v \<longrightarrow> CHR ''$'' \<notin> set v \<longrightarrow>
      (\<exists>t'. replace_step h t p = Gives t'
            \<and> chunks t' = step_chunks (p_name p) v (chunks t)))
   \<and> (list_all (\<lambda>p. word_name (p_name p)) P \<longrightarrow> plain_texts h P \<longrightarrow>
      distinct (map p_name P) \<longrightarrow> mset P' = mset P \<longrightarrow>
        substitute_in h P F = Gives (simultaneous (map (with_text h) P) F)
        \<and> evaluateFormula_in h formula P' = evaluateFormula_in h formula P)"
proof (intro conjI impI)
  assume "word_name (p_name p)" and "value_text h (p_value p) = Gives v"
    and "CHR ''$'' \<notin> set v"
  then show "\<exists>t'. replace_step h t p = Gives t'
            \<and> chunks t' = step_chunks (p_name p) v (chunks t)"
    by (rule replace_step_chunks)
next
  assume n: "list_all (\<lambda>p. word_name (p_name p)) P" and pt: "plain_texts h P"
  from substitute_with_text [OF n pt, of F] obtain t' where
    "substitute (map (with_text h) P) F = Some t'" "substitute_in h P F = Gives t'"
    by auto
  with substitute_simultaneous [OF modelled_with_text [OF n pt] inert_with_text [OF pt], of F]
  show "substitute_in h P F = Gives (simultaneous (map (with_text h) P) F)" by simp
next
  assume "list_all (\<lambda>p. word_name (p_name p)) P" and "plain_texts h P"
    and "distinct (map p_name P)" and "mset P' = mset P"
  then show "evaluateFormula_in h formula P' = evaluateFormula_in h formula P"
    by (rule evaluateFormula_in_perm)
qed

theorem C5_witness:
  "word_name (p_name (mk_param ''w'' (VNum (Fin 9))))
   \<and> value_text js_host (p_value (mk_param ''w'' (VNum (Fin 9)))) = Gives ''9''
   \<and> CHR ''$'' \<notin> set ''9''
   \<and> replace_step js_host ''width * w'' (mk_param ''w'' (VNum (Fin 9))) = Gives ''width * 9''
   \<and> list_all (\<lambda>p. word_name (p_name p)) params_wh
   \<and> plain_texts js_host params_wh
   \<and> distinct (map p_name params_wh)
   \<and> mset (rev params_wh) = mset params_wh
   \<and> substitute_in js_host params_wh ''width * 2'' = Gives ''5 * 2''
   \<and> evaluateFormula_in js_host (Some ''width * 2'') params_wh = Gives (Fin 10)
   \<and> evaluateFormula_in js_host (Some ''width * 2'') (rev params_wh) = Gives (Fin 10)"
proof -
  have a1: "word_name (p_name (mk_param ''w'' (VNum (Fin 9))))" by code_simp
  have a2: "value_text js_host (p_value (mk_param ''w'' (VNum (Fin 9)))) = Gives ''9''"
    by code_simp
  have a3: "CHR ''$'' \<notin> set ''9''" by simp
  have a4: "replace_step js_host ''width * w'' (mk_param ''w'' (VNum (Fin 9)))
      = Gives ''width * 9''"
    by code_simp
  have b1: "list_all (\<lambda>p. word_name (p_name p)) params_wh" by code_simp
  have b2: "plain_texts js_host params_wh" by code_simp
  have b3: "distinct (map p_name params_wh)" by code_simp
  have b4: "mset (rev params_wh) = mset params_wh" by simp
  have e: "simultaneous (map (with_text js_host) params_wh) ''width * 2'' = ''5 * 2''"
    by code_simp
  have v: "evaluateFormula_in js_host (Some ''width * 2'') params_wh = Gives (Fin 10)"
    by code_simp
  from C5_substitution_whole_token_and_order_free
    [of "mk_param ''w'' (VNum (Fin 9))" js_host "''9''" "''width * w''" params_wh
        "rev params_wh" "''width * 2''" "Some ''width * 2''"]
    b1 b2 b3 b4
  have "substitute_in js_host params_wh ''width * 2''
          = Gives (simultaneous (map (with_text js_host) params_wh) ''width * 2'')"
    and "evaluateFormula_in js_host (Some ''width * 2'') (rev params_wh)
          = evaluateFormula_in js_host (Some ''width * 2'') params_wh"
    by blast+
  with a1 a2 a3 a4 b1 b2 b3 b4 e v show ?thesis by simp
qed

text \<open>
  C5 as stated fails for a parameter whose value is a text that names another parameter:
  with \<open>a = "b"\<close> and \<open>b = 2\<close> the formula \<open>a\<close> gives 2 in this order and 0 in the
  other.
\<close>

theorem C5_order_matters_for_text_values:
  "evaluateFormula_in js_host (Some ''a'') params_text = Gives (Fin 2)
   \<and> evaluateFormula_in js_host (Some ''a'') (rev params_text) = Gives (Fin 0)"
  by code_simp

text \<open>
  C6. \<open>evaluateFormula\<close> is total: it returns a number for every formula and every
  parameter list. The code hands the text that passes its safety check to the host as the
  body of a function and calls that function. The formula \<open>looping_formula\<close> reads the
  property \<open>filter\<close> of the empty array and the property \<open>constructor\<close> of that, calls
  it with the text \<open>while(1);\<close> and calls the result; its three string literals are
  written in octal escapes, so that the safety check finds no run that starts with a
  letter or an underscore. The host runs the loop, and \<open>evaluateFormula\<close> does not
  return. No throw reaches the caller and every throw gives 0, for every host (lemmas
  \<open>evaluateFormula_in_never_throws\<close> and \<open>evaluateFormula_in_caught\<close>).
\<close>

theorem C6_constructed_code_never_returns:
  "remainingParamMatch looping_formula = []
   \<and> evaluateFormula_in js_host (Some looping_formula) [] = Hangs"
  by code_simp

section \<open>Properties of the handlers\<close>

subsection \<open>Costs follow the formulas and the parameters\<close>

lemma formulas_of_costs [simp]:
  "materialFormula (el\<lparr>v_name := n, v_material_cost := a, v_labor_cost := b\<rparr>) = materialFormula el"
  "laborFormula (el\<lparr>v_name := n, v_material_cost := a, v_labor_cost := b\<rparr>) = laborFormula el"
  by (simp_all add: materialFormula_def laborFormula_def)

lemma costs_current_calculated:
  assumes "selectedElements s' = calculateElementCosts ev es (selectedParameters s')"
  shows "costs_current ev s'"
  unfolding costs_current_def assms
  by (simp add: calculateElementCosts_def list_all_iff)

lemma costs_current_ParameterValueUpdate:
  "costs_current ev (handleParameterValueUpdate ev i v s)"
  by (rule costs_current_calculated) (simp add: handleParameterValueUpdate_def Let_def)

lemma costs_current_ParameterToggle:
  "costs_current ev (handleParameterToggle ev p s)"
  by (rule costs_current_calculated) (simp add: handleParameterToggle_def Let_def)

lemma costs_current_TemplateSelect:
  "costs_current ev (handleTemplateSelect ev t s)"
  by (rule costs_current_calculated) (simp add: handleTemplateSelect_def Let_def)

lemma costs_current_ModuleToggle:
  "costs_current ev s \<Longrightarrow> costs_current ev (handleModuleToggle m s)"
  by (auto simp: handleModuleToggle_def costs_current_def list_all_iff split: option.splits)

lemma costs_current_ElementToggle:
  "costs_current ev s \<Longrightarrow> costs_current ev (handleElementToggle ev now e m s)"
  by (auto simp: handleElementToggle_def Let_def costs_current_def list_all_iff
      materialFormula_def laborFormula_def string_or_def split: option.splits)

lemma costs_current_ElementValueUpdate:
  assumes "costs_current ev s" and "f \<noteq> FMaterialCost" and "f \<noteq> FLaborCost"
  shows "costs_current ev (handleElementValueUpdate ev i m f formula v s)"
proof (cases "f = FFormula \<or> f = FLaborFormula")
  case True
  then show ?thesis
    by (intro costs_current_calculated) (simp add: handleElementValueUpdate_def Let_def)
next
  case False
  with assms(2,3) have f: "f = FMarkup" by (cases f) auto
  with assms(1) show ?thesis
    by (auto simp: handleElementValueUpdate_def Let_def costs_current_def list_all_iff
        materialFormula_def laborFormula_def)
qed

text \<open>
  C7 (amended). After every operation on the selection that does not write a cost
  property directly (parameter value update, parameter toggle, formula edit, markup edit,
  element toggle, module toggle, template selection), every priced element has the costs
  that the evaluator gives for its effective formulas against the current parameters. The
  effective formula is the element's own formula or, when that is empty, the formula of
  its element definition.
\<close>

theorem C7_costs_stay_current:
  assumes "costs_current ev s" and "\<not> writes_cost a"
  shows "costs_current ev (mutate ev a s)"
proof (cases a)
  case (ParameterValueUpdate i v)
  then show ?thesis by (simp add: costs_current_ParameterValueUpdate)
next
  case (ParameterToggle p)
  then show ?thesis by (simp add: costs_current_ParameterToggle)
next
  case (ElementValueUpdate i m f formula v)
  with assms show ?thesis by (simp add: costs_current_ElementValueUpdate)
next
  case (ElementToggle now e m)
  with assms show ?thesis by (simp add: costs_current_ElementToggle)
next
  case (ModuleToggle m)
  with assms show ?thesis by (simp add: costs_current_ModuleToggle)
next
  case (TemplateSelect t)
  then show ?thesis by (simp add: costs_current_TemplateSelect)
qed

theorem C7_witness:
  "costs_current (evaluate_with js_run) priced_selection
   \<and> \<not> writes_cost (ParameterValueUpdate 0 (VNum (Fin 4)))
   \<and> costs_current (evaluate_with js_run)
       (mutate (evaluate_with js_run) (ParameterValueUpdate 0 (VNum (Fin 4))) priced_selection)
   \<and> map v_material_cost (selectedElements priced_selection) = [Fin 6]
   \<and> map v_material_cost
       (selectedElements
          (mutate (evaluate_with js_run) (ParameterValueUpdate 0 (VNum (Fin 4))) priced_selection))
       = [Fin 8]"
proof -
  have h1: "costs_current (evaluate_with js_run) priced_selection" by code_simp
  have h2: "\<not> writes_cost (ParameterValueUpdate 0 (VNum (Fin 4)))" by simp
  have v1: "map v_material_cost (selectedElements priced_selection) = [Fin 6]" by code_simp
  have v2: "map v_material_cost
       (selectedElements
          (mutate (evaluate_with js_run) (ParameterValueUpdate 0 (VNum (Fin 4))) priced_selection))
       = [Fin 8]"
    by code_simp
  from C7_costs_stay_current [OF h1 h2] h1 h2 v1 v2 show ?thesis by simp
qed

text \<open>
  C7 as stated, with the element's own formula properties, fails after a formula edit to
  the empty text: the own formula is empty, for which the evaluator gives 0, and the cost
  is computed from the formula of the element definition.
\<close>

theorem C7_empty_formula_falls_back:
  "costs_of_own_formulas (evaluate_with js_run) priced_selection
   \<and> \<not> costs_of_own_formulas (evaluate_with js_run)
         (mutate (evaluate_with js_run)
            (ElementValueUpdate 1 (mk_module 1) FFormula [] (Fin 0)) priced_selection)"
  by code_simp

subsection \<open>Deselecting a module\<close>

text \<open>
  C8. Deselecting a selected module removes it from the selected modules and, in the same
  transition, removes exactly the priced elements of that module: the elements left are
  the elements of the other modules, unchanged and in their order. The parameters stay.
\<close>

theorem C8_module_deselect_removes_its_elements:
  assumes "\<exists>m \<in> set (selectedModules s). m_id m = m_id modl"
  shows "selectedModules (handleModuleToggle modl s)
           = filter (\<lambda>m. m_id m \<noteq> m_id modl) (selectedModules s)
       \<and> selectedElements (handleModuleToggle modl s)
           = filter (\<lambda>e. m_id (v_module e) \<noteq> m_id modl) (selectedElements s)
       \<and> selectedParameters (handleModuleToggle modl s) = selectedParameters s"
proof -
  from assms obtain m where "find (\<lambda>m. m_id m = m_id modl) (selectedModules s) = Some m"
    by (cases "find (\<lambda>m. m_id m = m_id modl) (selectedModules s)") (auto simp: find_None_iff)
  then show ?thesis by (simp add: handleModuleToggle_def)
qed

theorem C8_witness:
  "(\<exists>m \<in> set (selectedModules two_modules). m_id m = m_id (mk_module 1))
   \<and> selectedModules (handleModuleToggle (mk_module 1) two_modules) = [mk_module 2]
   \<and> selectedElements (handleModuleToggle (mk_module 1) two_modules) = [mk_priced 1 2 30 0 10]"
proof -
  have h: "\<exists>m \<in> set (selectedModules two_modules). m_id m = m_id (mk_module 1)"
    by (simp add: two_modules_def mk_module_def)
  from C8_module_deselect_removes_its_elements [OF h] h show ?thesis
    by (simp add: two_modules_def mk_module_def mk_priced_def)
qed

subsection \<open>One instance per element and module\<close>

lemma same_pair_pair_of: "same_pair el m e \<longleftrightarrow> pair_of e = (e_id el, m_id m)"
  by (auto simp: same_pair_def pair_of_def)

lemma unique_pairs_ElementToggle:
  assumes "unique_pairs s"
  shows "unique_pairs (handleElementToggle ev now el m s)"
proof (cases "find (same_pair el m) (selectedElements s)")
  case None
  then have "\<forall>e \<in> set (selectedElements s). pair_of e \<noteq> (e_id el, m_id m)"
    by (auto simp: find_None_iff same_pair_pair_of)
  with assms None show ?thesis
    by (auto simp: handleElementToggle_def Let_def unique_pairs_def pair_of_def)
next
  case (Some a)
  with assms show ?thesis
    by (simp add: handleElementToggle_def Let_def unique_pairs_def distinct_map_filter)
qed

lemma unique_pairs_ModuleToggle:
  assumes "unique_pairs s"
  shows "unique_pairs (handleModuleToggle m s)"
  using assms
  by (cases "find (\<lambda>x. m_id x = m_id m) (selectedModules s)")
    (simp_all add: handleModuleToggle_def unique_pairs_def distinct_map_filter)

lemma pairs_TemplateSelect:
  "map pair_of (selectedElements (handleTemplateSelect ev t s)) = template_pairs t"
  by (simp add: handleTemplateSelect_def Let_def calculateElementCosts_def template_pairs_def
      pair_of_def o_def)

text \<open>
  C9 (amended). An element toggle and a module toggle keep the priced elements free of
  two instances of one (element, module) pair. A template selection gives such a
  selection exactly when the template's own element list repeats no pair.
\<close>

theorem C9_unique_pairs_kept:
  assumes "unique_pairs s"
  shows "unique_pairs (handleElementToggle ev now el m s)
       \<and> unique_pairs (handleModuleToggle m s)
       \<and> (unique_pairs (handleTemplateSelect ev t s) \<longleftrightarrow> distinct (template_pairs t))"
  using assms
  by (simp add: unique_pairs_ElementToggle unique_pairs_ModuleToggle)
    (simp add: unique_pairs_def pairs_TemplateSelect)

theorem C9_witness:
  "unique_pairs two_modules
   \<and> unique_pairs
       (handleElementToggle (evaluate_with js_run) 7 (mk_element 3 ''1'') (mk_module 2) two_modules)
   \<and> unique_pairs (handleModuleToggle (mk_module 2) two_modules)"
proof -
  have h: "unique_pairs two_modules"
    by (simp add: unique_pairs_def two_modules_def pair_of_def mk_priced_def mk_module_def)
  from C9_unique_pairs_kept [OF h] h show ?thesis by simp
qed

text \<open>
  C9 as stated fails for the selection of a template that lists one element under one
  module twice: both instances are priced.
\<close>

theorem C9_template_with_repeated_pair:
  "unique_pairs empty_selection
   \<and> \<not> unique_pairs (handleTemplateSelect (evaluate_with js_run) duplicate_template empty_selection)"
  by (simp add: unique_pairs_def pairs_TemplateSelect template_pairs_def duplicate_template_def
      list_or_def empty_selection_def mk_element_def mk_module_def)

subsection \<open>Toggling an element on and off\<close>





end
